theory Spec2Isabelle
  imports Complex_Main "HOL-Library.Multiset"
begin

section \<open>JavaScript numbers\<close>

text \<open>
  The overlay renderer of \<^verbatim>\<open>data_viz/bounding-box.js\<close> computes with JavaScript
  numbers, which are IEEE 754 binary64 values. A number is a finite real, one of the two
  infinities, or NaN. Every arithmetic operation computes the exact real result and
  rounds it to the nearest binary64 value, ties to even (\<open>round_binary64\<close>); results
  of magnitude \<open>2 ^ 1024\<close> or more after rounding overflow to an infinity, and magnitudes
  below \<open>2 ^ -1022\<close> are rounded on the subnormal grid of spacing \<open>2 ^ -1074\<close>.

  The two zeros are identified: the renderer never divides by a zero (both divisors are
  checked to be truthy first), and \<open>-0\<close> and \<open>+0\<close> have the same string image, the
  same truthiness and the same comparisons, so no value the renderer writes depends on
  the sign of a zero.
\<close>

datatype jsnum = Fin real | PInf | NInf | NaN

definition emin :: int where
  "emin = -1022"

definition emax :: int where
  "emax = 1023"

definition mant_bits :: int where
  "mant_bits = 52"

definition round_half_even :: "real \<Rightarrow> int" where
  "round_half_even x =
     (let f = \<lfloor>x\<rfloor>; r = x - of_int f in
      if r < 1/2 then f else if 1/2 < r then f + 1 else if even f then f else f + 1)"

definition binades :: "real \<Rightarrow> int set" where
  "binades a = insert emin (Set.filter (\<lambda>k. 2 powi k \<le> a) {emin..emax})"

definition expo :: "real \<Rightarrow> int" where
  \<comment> \<open>the binary exponent of a magnitude, kept within the normal range\<close>
  "expo a = Max (binades a)"

definition round_mag :: "real \<Rightarrow> real" where
  "round_mag a =
     of_int (round_half_even (a / 2 powi (expo a - mant_bits))) * 2 powi (expo a - mant_bits)"

definition round_binary64 :: "real \<Rightarrow> jsnum" where
  "round_binary64 x =
     (let m = round_mag \<bar>x\<bar> in
      if 2 powi (emax + 1) \<le> m then (if 0 < x then PInf else NInf)
      else Fin (if x < 0 then - m else m))"

fun js_neg :: "jsnum \<Rightarrow> jsnum" where
  "js_neg (Fin a) = Fin (- a)"
| "js_neg PInf = NInf"
| "js_neg NInf = PInf"
| "js_neg NaN = NaN"

fun js_add :: "jsnum \<Rightarrow> jsnum \<Rightarrow> jsnum" where
  "js_add (Fin a) (Fin b) = round_binary64 (a + b)"
| "js_add NaN _ = NaN"
| "js_add _ NaN = NaN"
| "js_add PInf NInf = NaN"
| "js_add NInf PInf = NaN"
| "js_add PInf _ = PInf"
| "js_add _ PInf = PInf"
| "js_add NInf _ = NInf"
| "js_add _ NInf = NInf"

definition js_sub :: "jsnum \<Rightarrow> jsnum \<Rightarrow> jsnum" where
  "js_sub a b = js_add a (js_neg b)"

fun js_sign :: "jsnum \<Rightarrow> int" where
  "js_sign (Fin a) = (if a < 0 then -1 else if a = 0 then 0 else 1)"
| "js_sign PInf = 1"
| "js_sign NInf = -1"
| "js_sign NaN = 0"

fun js_mul :: "jsnum \<Rightarrow> jsnum \<Rightarrow> jsnum" where
  "js_mul (Fin a) (Fin b) = round_binary64 (a * b)"
| "js_mul NaN _ = NaN"
| "js_mul _ NaN = NaN"
| "js_mul a b =
     (let s = js_sign a * js_sign b in if s = 0 then NaN else if 0 < s then PInf else NInf)"

fun js_div :: "jsnum \<Rightarrow> jsnum \<Rightarrow> jsnum" where
  "js_div NaN _ = NaN"
| "js_div _ NaN = NaN"
| "js_div (Fin a) (Fin b) =
     (if b = 0 then (if a = 0 then NaN else if 0 < a then PInf else NInf)
      else round_binary64 (a / b))"
| "js_div (Fin a) _ = Fin 0"
| "js_div a (Fin b) = (if 0 < js_sign a * (if b < 0 then -1 else 1) then PInf else NInf)"
| "js_div _ _ = NaN"

fun js_less :: "jsnum \<Rightarrow> jsnum \<Rightarrow> bool" where
  "js_less NaN _ = False"
| "js_less _ NaN = False"
| "js_less (Fin a) (Fin b) = (a < b)"
| "js_less _ NInf = False"
| "js_less NInf _ = True"
| "js_less PInf _ = False"
| "js_less _ PInf = True"

definition js_gt :: "jsnum \<Rightarrow> jsnum \<Rightarrow> bool" where
  "js_gt a b = js_less b a"

definition Math_min :: "jsnum \<Rightarrow> jsnum \<Rightarrow> jsnum" where
  "Math_min a b = (if a = NaN \<or> b = NaN then NaN else if js_less b a then b else a)"

fun Math_round :: "jsnum \<Rightarrow> jsnum" where
  "Math_round (Fin a) = Fin (of_int \<lfloor>a + 1/2\<rfloor>)"
| "Math_round v = v"

fun isFinite :: "jsnum \<Rightarrow> bool" where
  "isFinite (Fin a) = True"
| "isFinite v = False"

text \<open>The comparison \<^verbatim>\<open><=\<close>, in which the statements below express bounds.\<close>

fun js_le :: "jsnum \<Rightarrow> jsnum \<Rightarrow> bool" where
  "js_le NaN _ = False"
| "js_le _ NaN = False"
| "js_le (Fin a) (Fin b) = (a \<le> b)"
| "js_le NInf _ = True"
| "js_le _ PInf = True"
| "js_le _ _ = False"

text \<open>
  Half the spacing of the binary64 numbers relative to their size, and the sizes for
  which no quotient or product of the transform leaves the normal range.
\<close>

definition unit_roundoff :: real where
  "unit_roundoff = 2 powi (- mant_bits - 1)"

definition plausible_size :: "real \<Rightarrow> bool" where
  "plausible_size x \<longleftrightarrow> 2 powi (-100) \<le> x \<and> x \<le> 2 powi 100"

section \<open>Values read from the JSON document and from the DOM\<close>

text \<open>
  The fields of a detection record come out of \<^verbatim>\<open>response.json()\<close> untyped. A field is
  modelled as a primitive JavaScript value, \<open>JUndefined\<close> standing for a missing one.
  The two conversions between strings and numbers (StringToNumber and Number::toString
  of ECMA-262) belong to the JavaScript engine, and the class colours are imported from
  \<^verbatim>\<open>utils/set-class-colors.js\<close>; the three are parameters of the model, collected in
  \<open>host\<close>. \<open>classColors\<close> lists the properties of that object in the order
  \<^verbatim>\<open>Object.keys\<close> yields them.
\<close>

datatype jsval = JUndefined | JNull | JBool bool | JNum jsnum | JStr string

record host =
  StringToNumber :: "string \<Rightarrow> jsnum"
  NumberToString :: "jsnum \<Rightarrow> string"
  classColors :: "(string \<times> string) list"

fun ToNumber :: "'a host_scheme \<Rightarrow> jsval \<Rightarrow> jsnum" where
  "ToNumber h JUndefined = NaN"
| "ToNumber h JNull = Fin 0"
| "ToNumber h (JBool b) = (if b then Fin 1 else Fin 0)"
| "ToNumber h (JNum n) = n"
| "ToNumber h (JStr s) = StringToNumber h s"

fun ToString :: "'a host_scheme \<Rightarrow> jsval \<Rightarrow> string" where
  "ToString h JUndefined = ''undefined''"
| "ToString h JNull = ''null''"
| "ToString h (JBool b) = (if b then ''true'' else ''false'')"
| "ToString h (JNum n) = NumberToString h n"
| "ToString h (JStr s) = s"

fun ToBoolean :: "jsval \<Rightarrow> bool" where
  "ToBoolean JUndefined = False"
| "ToBoolean JNull = False"
| "ToBoolean (JBool b) = b"
| "ToBoolean (JNum n) = (n \<noteq> NaN \<and> n \<noteq> Fin 0)"
| "ToBoolean (JStr s) = (s \<noteq> [])"

fun strict_equals :: "jsval \<Rightarrow> jsval \<Rightarrow> bool" where
  "strict_equals JUndefined JUndefined = True"
| "strict_equals JNull JNull = True"
| "strict_equals (JBool a) (JBool b) = (a = b)"
| "strict_equals (JNum a) (JNum b) = (a = b \<and> a \<noteq> NaN)"
| "strict_equals (JStr a) (JStr b) = (a = b)"
| "strict_equals _ _ = False"

fun js_plus :: "'a host_scheme \<Rightarrow> jsval \<Rightarrow> jsval \<Rightarrow> jsval" where
  "js_plus h (JStr s) b = JStr (s @ ToString h b)"
| "js_plus h a (JStr t) = JStr (ToString h a @ t)"
| "js_plus h a b = JNum (js_add (ToNumber h a) (ToNumber h b))"

text \<open>
  \<^verbatim>\<open>d.bbox\<close> is either absent (or \<^verbatim>\<open>null\<close>), and then \<^verbatim>\<open>d.bbox[0]\<close> throws a
  TypeError, or a value that can be indexed; reading an index that is not there yields
  \<^verbatim>\<open>undefined\<close>.
\<close>

datatype bbox_field = NoBBox | BBox "jsval list"

record detection =
  frame :: jsval
  id' :: jsval
  class' :: jsval
  confidence :: jsval
  bbox :: bbox_field

definition component :: "jsval list \<Rightarrow> nat \<Rightarrow> jsval" where
  "component cs i = (if i < length cs then cs ! i else JUndefined)"

record DOMRect =
  rect_top :: jsnum
  rect_left :: jsnum
  rect_width :: jsnum
  rect_height :: jsnum

record video_element =
  videoWidth :: jsval
  videoHeight :: jsval
  clientRect :: DOMRect

text \<open>
  What the renderer reads from a video container: the element of class
  \<^verbatim>\<open>content-video\<close> inside it, if there is one, and the container's own rectangle.
  The DOM is a function from container identities to these views; it changes between
  calls (the page is resized, a video loads), so every operation takes the current one.
\<close>

record container =
  content_video :: "video_element option"
  containerRect :: DOMRect

type_synonym dom = "nat \<Rightarrow> container"

section \<open>The overlay surface\<close>

record box_attrs =
  box_x :: jsnum
  box_y :: jsnum
  box_width :: jsnum
  box_height :: jsnum
  box_class :: string
  box_fill :: string
  box_stroke :: "string option"
  box_stroke_width :: string
  box_opacity :: jsnum

record label_attrs =
  label_x :: jsnum
  label_y :: jsnum
  label_text :: string
  label_class :: string
  label_fill :: "string option"
  label_font_size :: string
  label_font_weight :: string

datatype tag = Rect | Text

datatype shape = Blank | Box box_attrs | Label label_attrs

text \<open>
  A child of the \<^verbatim>\<open>bounding-boxes\<close> group. \<open>node_id\<close> is the identity of the DOM
  node: two nodes are the same object exactly when their identities agree. \<open>datum\<close> is
  the \<^verbatim>\<open>__data__\<close> that d3 binds to the node, and \<open>shape\<close> holds the values last
  passed to \<^verbatim>\<open>attr\<close>, \<^verbatim>\<open>style\<close> and \<^verbatim>\<open>text\<close>.
\<close>

record node =
  node_id :: nat
  node_tag :: tag
  datum :: detection
  shape :: shape

record legend_item =
  legend_offset :: jsnum
  swatch_fill :: string
  legend_label :: string

record overlay =
  parentNode :: "nat option"
  style_top :: string
  style_left :: string
  style_width :: string
  style_height :: string
  boxes :: "node list"
  legend :: "legend_item list"

text \<open>
  The module's variables, with the console and the supply of fresh node identities.
\<close>

record state =
  boundingBoxData :: "detection list"
  svg :: "overlay option"
  currentFrame :: jsval
  console :: "string list"
  next_node :: nat

datatype error = TypeError

section \<open>initializeBoundingBoxes\<close>

text \<open>
  The body runs inside \<^verbatim>\<open>try\<close>. Removing the overlay of the container detaches the
  module's own surface when that is the one in the container; the variable \<^verbatim>\<open>svg\<close>
  keeps referring to it. \<^verbatim>\<open>querySelector\<close> yields \<^verbatim>\<open>null\<close> when the container has no
  video element, the call of \<^verbatim>\<open>getBoundingClientRect\<close> on it throws, and the handler
  logs. The registration of the resize observer is not part of the model.
\<close>

definition px :: "'a host_scheme \<Rightarrow> jsnum \<Rightarrow> string" where
  "px h n = NumberToString h n @ ''px''"

definition remove_overlay :: "nat \<Rightarrow> state \<Rightarrow> state" where
  "remove_overlay c st =
     (case svg st of
        None \<Rightarrow> st
      | Some ov \<Rightarrow>
          if parentNode ov = Some c then st\<lparr>svg := Some (ov\<lparr>parentNode := None\<rparr>)\<rparr> else st)"

definition make_legend :: "'a host_scheme \<Rightarrow> legend_item list" where
  "make_legend h =
     map (\<lambda>(i, className, colour).
            \<lparr>legend_offset = js_mul (Fin (of_nat i)) (Fin 20),
             swatch_fill = colour,
             legend_label = className\<rparr>)
         (enumerate 0 (classColors h))"

definition initializeBoundingBoxes :: "'a host_scheme \<Rightarrow> dom \<Rightarrow> nat \<Rightarrow> state \<Rightarrow> state" where
  "initializeBoundingBoxes h page videoContainer st =
     (let st1 = remove_overlay videoContainer st in
      case content_video (page videoContainer) of
        None \<Rightarrow> st1\<lparr>console := console st1 @ [''Error initializing bounding boxes:'']\<rparr>
      | Some videoElement \<Rightarrow>
          let videoRect = clientRect videoElement;
              cr = containerRect (page videoContainer)
          in st1\<lparr>svg := Some
                 \<lparr>parentNode = Some videoContainer,
                  style_top = px h (js_sub (rect_top videoRect) (rect_top cr)),
                  style_left = px h (js_sub (rect_left videoRect) (rect_left cr)),
                  style_width = px h (rect_width videoRect),
                  style_height = px h (rect_height videoRect),
                  boxes = [],
                  legend = make_legend h\<rparr>\<rparr>)"

section \<open>loadBoundingBoxData\<close>

text \<open>
  \<^verbatim>\<open>fetch\<close> and \<^verbatim>\<open>response.json()\<close> either produce the parsed document or throw; the
  outcome is an input of the model. The assignments happen when the awaited promise
  settles, in one step.
\<close>

datatype fetched = NetworkError | SyntaxError | Document "detection list"

fun loadBoundingBoxData :: "fetched \<Rightarrow> state \<Rightarrow> state" where
  "loadBoundingBoxData (Document records) st =
     st\<lparr>boundingBoxData := records, currentFrame := JNum (Fin 0)\<rparr>"
| "loadBoundingBoxData failure st =
     st\<lparr>console := console st @ [''Error loading bounding box data:''],
        boundingBoxData := []\<rparr>"

section \<open>updateBoundingBoxes\<close>

subsection \<open>The transform from native video pixels to the displayed rectangle\<close>

text \<open>
  The local constants of \<^verbatim>\<open>updateBoundingBoxes\<close>, as functions of the video element
  \<open>v\<close> they are computed from. \<^verbatim>\<open>videoWidth\<close> and \<^verbatim>\<open>videoHeight\<close> are converted to
  numbers by the operators that use them.
\<close>

definition scale :: "'a host_scheme \<Rightarrow> video_element \<Rightarrow> jsnum" where
  "scale h v =
     Math_min (js_div (rect_width (clientRect v)) (ToNumber h (videoWidth v)))
              (js_div (rect_height (clientRect v)) (ToNumber h (videoHeight v)))"

definition actualWidth :: "'a host_scheme \<Rightarrow> video_element \<Rightarrow> jsnum" where
  "actualWidth h v = js_mul (ToNumber h (videoWidth v)) (scale h v)"

definition actualHeight :: "'a host_scheme \<Rightarrow> video_element \<Rightarrow> jsnum" where
  "actualHeight h v = js_mul (ToNumber h (videoHeight v)) (scale h v)"

definition xOffset :: "'a host_scheme \<Rightarrow> video_element \<Rightarrow> jsnum" where
  "xOffset h v = js_div (js_sub (rect_width (clientRect v)) (actualWidth h v)) (Fin 2)"

definition yOffset :: "'a host_scheme \<Rightarrow> video_element \<Rightarrow> jsnum" where
  "yOffset h v = js_div (js_sub (rect_height (clientRect v)) (actualHeight h v)) (Fin 2)"

subsection \<open>The values of the attribute callbacks\<close>

text \<open>
  Each function is one callback of the \<^verbatim>\<open>attr\<close>, \<^verbatim>\<open>style\<close> and \<^verbatim>\<open>text\<close> chain,
  applied to the components \<open>cs\<close> of an indexable \<^verbatim>\<open>d.bbox\<close> or to the datum \<open>d\<close>.
\<close>

definition rect_x :: "'a host_scheme \<Rightarrow> video_element \<Rightarrow> jsval list \<Rightarrow> jsnum" where
  "rect_x h v cs =
     (let x = js_add (xOffset h v)
                (js_mul (js_div (ToNumber h (component cs 0)) (ToNumber h (videoWidth v)))
                        (actualWidth h v))
      in if isFinite x then x else Fin 0)"

definition rect_y :: "'a host_scheme \<Rightarrow> video_element \<Rightarrow> jsval list \<Rightarrow> jsnum" where
  "rect_y h v cs =
     (let y = js_add (yOffset h v)
                (js_mul (js_div (ToNumber h (component cs 1)) (ToNumber h (videoHeight v)))
                        (actualHeight h v))
      in if isFinite y then y else Fin 0)"

definition rect_width' :: "'a host_scheme \<Rightarrow> video_element \<Rightarrow> jsval list \<Rightarrow> jsnum" where
  "rect_width' h v cs =
     (let width = js_mul (js_div (js_sub (ToNumber h (component cs 2)) (ToNumber h (component cs 0)))
                                 (ToNumber h (videoWidth v)))
                         (actualWidth h v)
      in if isFinite width \<and> js_gt width (Fin 0) then width else Fin 0)"

definition rect_height' :: "'a host_scheme \<Rightarrow> video_element \<Rightarrow> jsval list \<Rightarrow> jsnum" where
  "rect_height' h v cs =
     (let height = js_mul (js_div (js_sub (ToNumber h (component cs 3)) (ToNumber h (component cs 1)))
                                  (ToNumber h (videoHeight v)))
                          (actualHeight h v)
      in if isFinite height \<and> js_gt height (Fin 0) then height else Fin 0)"

definition class_color :: "'a host_scheme \<Rightarrow> detection \<Rightarrow> string option" where
  \<comment> \<open>\<^verbatim>\<open>classColors[d.class]\<close>; \<open>None\<close> is \<^verbatim>\<open>undefined\<close>\<close>
  "class_color h d = map_of (classColors h) (ToString h (class' d))"

definition opacity :: "'a host_scheme \<Rightarrow> detection \<Rightarrow> jsnum" where
  "opacity h d =
     Math_min (Fin 1) (ToNumber h (js_plus h (confidence d) (JNum (round_binary64 (3/10)))))"

definition text_y :: "'a host_scheme \<Rightarrow> video_element \<Rightarrow> jsval list \<Rightarrow> jsnum" where
  "text_y h v cs =
     (let y = js_sub (js_add (yOffset h v)
                        (js_mul (js_div (ToNumber h (component cs 1)) (ToNumber h (videoHeight v)))
                                (actualHeight h v)))
                     (Fin 5)
      in if isFinite y then y else Fin 0)"

definition text_content :: "'a host_scheme \<Rightarrow> detection \<Rightarrow> string" where
  "text_content h d =
     ToString h (class' d) @ '' '' @ ToString h (id' d) @ '' ('' @
     NumberToString h (Math_round (js_mul (ToNumber h (confidence d)) (Fin 100))) @ ''%)''"

definition rect_shape :: "'a host_scheme \<Rightarrow> video_element \<Rightarrow> detection \<Rightarrow> error + shape" where
  "rect_shape h v d =
     (case bbox d of
        NoBBox \<Rightarrow> Inl TypeError
      | BBox cs \<Rightarrow> Inr (Box
          \<lparr>box_x = rect_x h v cs,
           box_y = rect_y h v cs,
           box_width = rect_width' h v cs,
           box_height = rect_height' h v cs,
           box_class = ''bounding-box'',
           box_fill = ''none'',
           box_stroke = class_color h d,
           box_stroke_width = ''2px'',
           box_opacity = opacity h d\<rparr>))"

definition text_shape :: "'a host_scheme \<Rightarrow> video_element \<Rightarrow> detection \<Rightarrow> error + shape" where
  "text_shape h v d =
     (case bbox d of
        NoBBox \<Rightarrow> Inl TypeError
      | BBox cs \<Rightarrow> Inr (Label
          \<lparr>label_x = rect_x h v cs,
           label_y = text_y h v cs,
           label_text = text_content h d,
           label_class = ''bounding-box-label'',
           label_fill = class_color h d,
           label_font_size = ''18px'',
           label_font_weight = ''bold''\<rparr>))"

subsection \<open>The attribute values as the specification states them\<close>

text \<open>
  Step 6 of the transform algorithm of the specification gives each drawn attribute by a
  formula, without the guards of the callbacks. These are the formulas, evaluated in the
  arithmetic of the module.
\<close>

definition spec_x :: "'a host_scheme \<Rightarrow> video_element \<Rightarrow> jsval list \<Rightarrow> jsnum" where
  "spec_x h v cs =
     js_add (xOffset h v)
       (js_mul (js_div (ToNumber h (component cs 0)) (ToNumber h (videoWidth v))) (actualWidth h v))"

definition spec_y :: "'a host_scheme \<Rightarrow> video_element \<Rightarrow> jsval list \<Rightarrow> jsnum" where
  "spec_y h v cs =
     js_add (yOffset h v)
       (js_mul (js_div (ToNumber h (component cs 1)) (ToNumber h (videoHeight v))) (actualHeight h v))"

definition spec_width :: "'a host_scheme \<Rightarrow> video_element \<Rightarrow> jsval list \<Rightarrow> jsnum" where
  "spec_width h v cs =
     js_mul (js_div (js_sub (ToNumber h (component cs 2)) (ToNumber h (component cs 0)))
                    (ToNumber h (videoWidth v)))
            (actualWidth h v)"

definition spec_height :: "'a host_scheme \<Rightarrow> video_element \<Rightarrow> jsval list \<Rightarrow> jsnum" where
  "spec_height h v cs =
     js_mul (js_div (js_sub (ToNumber h (component cs 3)) (ToNumber h (component cs 1)))
                    (ToNumber h (videoHeight v)))
            (actualHeight h v)"

subsection \<open>The data join of d3\<close>

text \<open>
  \<^verbatim>\<open>selectAll(tag).data(frameData, d => d.id)\<close> follows the keyed join of d3-selection.
  The key of a node or of a datum is the string image of its \<^verbatim>\<open>id\<close>. Of the selected
  nodes the first one with a given key is a candidate, the others leave. Going through the
  data in order, a datum whose key has a candidate left takes that node, which is
  rebound to the datum and is no candidate any more; a datum without one enters. The
  nodes that no datum took leave.
\<close>

definition key :: "'a host_scheme \<Rightarrow> detection \<Rightarrow> string" where
  "key h d = ToString h (id' d)"

fun nodeByKeyValue :: "'a host_scheme \<Rightarrow> node list \<Rightarrow> string \<rightharpoonup> nat" where
  "nodeByKeyValue h [] = Map.empty"
| "nodeByKeyValue h (n # ns) = (nodeByKeyValue h ns)(key h (datum n) \<mapsto> node_id n)"

text \<open>\<open>Inl i\<close>: the datum updates the node \<open>i\<close>; \<open>Inr ()\<close>: it enters.\<close>

fun bind :: "'a host_scheme \<Rightarrow> (string \<rightharpoonup> nat) \<Rightarrow> detection list \<Rightarrow> (nat + unit) list" where
  "bind h m [] = []"
| "bind h m (d # ds) =
     (case m (key h d) of
        Some i \<Rightarrow> Inl i # bind h (m(key h d := None)) ds
      | None \<Rightarrow> Inr () # bind h m ds)"

text \<open>
  \<^verbatim>\<open>enter().append(tag)\<close> creates a node for every entering datum and inserts it into
  the group before the node of the next updating datum, at the end when there is none.
\<close>

fun next_update :: "(nat + unit) list \<Rightarrow> nat option" where
  "next_update [] = None"
| "next_update (Inl i # bs) = Some i"
| "next_update (Inr u # bs) = next_update bs"

fun insertBefore :: "node \<Rightarrow> nat option \<Rightarrow> node list \<Rightarrow> node list" where
  "insertBefore n None cs = cs @ [n]"
| "insertBefore n (Some i) [] = [n]"
| "insertBefore n (Some i) (c # cs) =
     (if node_id c = i then n # c # cs else c # insertBefore n (Some i) cs)"

text \<open>
  The result lists, by the index of the datum, the node of the merged selection with the
  datum bound to it.
\<close>

fun append_enter ::
  "tag \<Rightarrow> (nat + unit) list \<Rightarrow> detection list \<Rightarrow> node list \<Rightarrow> nat \<Rightarrow>
   (nat \<times> detection) list \<times> node list \<times> nat" where
  "append_enter t (Inl i # bs) (d # ds) cs fresh =
     (case append_enter t bs ds cs fresh of (merged, cs', fresh') \<Rightarrow> ((i, d) # merged, cs', fresh'))"
| "append_enter t (Inr u # bs) (d # ds) cs fresh =
     (case append_enter t bs ds
             (insertBefore \<lparr>node_id = fresh, node_tag = t, datum = d, shape = Blank\<rparr> (next_update bs) cs)
             (Suc fresh)
      of (merged, cs', fresh') \<Rightarrow> ((fresh, d) # merged, cs', fresh'))"
| "append_enter t bs ds cs fresh = ([], cs, fresh)"

definition set_attrs :: "(detection \<Rightarrow> shape) \<Rightarrow> (nat \<times> detection) list \<Rightarrow> node list \<Rightarrow> node list" where
  "set_attrs render merged cs =
     map (\<lambda>c. case map_of merged (node_id c) of
                 Some d \<Rightarrow> c\<lparr>datum := d, shape := render d\<rparr>
               | None \<Rightarrow> c) cs"

definition join ::
  "'a host_scheme \<Rightarrow> tag \<Rightarrow> (detection \<Rightarrow> shape) \<Rightarrow> detection list \<Rightarrow> node list \<times> nat \<Rightarrow>
   node list \<times> nat" where
  "join h t render frameData layer =
     (case layer of (cs, fresh) \<Rightarrow>
        let selected = filter (\<lambda>n. node_tag n = t) cs;
            bound = bind h (nodeByKeyValue h selected) frameData;
            exit = filter (\<lambda>n. Inl (node_id n) \<notin> set bound) selected;
            cs1 = filter (\<lambda>n. node_id n \<notin> set (map node_id exit)) cs
        in case append_enter t bound frameData cs1 fresh of
             (merged, cs2, fresh') \<Rightarrow> (set_attrs render merged cs2, fresh'))"

subsection \<open>The function\<close>

text \<open>
  An exception thrown inside the function is not caught there. The model reports it;
  what the overlay looks like after an uncaught exception is not modelled.
\<close>

fun all_shapes :: "(detection \<Rightarrow> error + shape) \<Rightarrow> detection list \<Rightarrow> error + unit" where
  "all_shapes f [] = Inr ()"
| "all_shapes f (d # ds) = (case f d of Inl e \<Rightarrow> Inl e | Inr s \<Rightarrow> all_shapes f ds)"

definition the_shape :: "(detection \<Rightarrow> error + shape) \<Rightarrow> detection \<Rightarrow> shape" where
  "the_shape f d = (case f d of Inr s \<Rightarrow> s | Inl e \<Rightarrow> Blank)"

definition truthy_number :: "jsnum \<Rightarrow> bool" where
  "truthy_number n = ToBoolean (JNum n)"

definition updateBoundingBoxes :: "'a host_scheme \<Rightarrow> dom \<Rightarrow> jsval \<Rightarrow> state \<Rightarrow> error + state" where
  "updateBoundingBoxes h page frameNumber st =
     (case svg st of
        None \<Rightarrow> Inr st
      | Some ov \<Rightarrow>
          if boundingBoxData st = [] then Inr st
          else
            let st1 = st\<lparr>currentFrame := frameNumber\<rparr>;
                frameData = filter (\<lambda>d. strict_equals (frame d) frameNumber) (boundingBoxData st)
            in (case parentNode ov of
                 None \<Rightarrow> Inl TypeError
               | Some c \<Rightarrow>
                  (case content_video (page c) of
                     None \<Rightarrow> Inr st1
                   | Some videoElement \<Rightarrow>
                       if \<not> ToBoolean (videoWidth videoElement) \<or> \<not> ToBoolean (videoHeight videoElement)
                          \<or> \<not> truthy_number (rect_width (clientRect videoElement))
                          \<or> \<not> truthy_number (rect_height (clientRect videoElement))
                       then Inr st1
                       else
                         (case all_shapes (rect_shape h videoElement) frameData of
                            Inl e \<Rightarrow> Inl e
                          | Inr u \<Rightarrow>
                             (case join h Rect (the_shape (rect_shape h videoElement)) frameData
                                     (boxes ov, next_node st)
                              of (cs, fresh) \<Rightarrow>
                                (case join h Text (the_shape (text_shape h videoElement)) frameData
                                        (cs, fresh)
                                 of (cs', fresh') \<Rightarrow>
                                   Inr (st1\<lparr>svg := Some (ov\<lparr>boxes := cs'\<rparr>),
                                            next_node := fresh'\<rparr>)))))))"

section \<open>handleResize\<close>

definition handleResize :: "'a host_scheme \<Rightarrow> dom \<Rightarrow> state \<Rightarrow> error + state" where
  "handleResize h page st =
     (case svg st of
        None \<Rightarrow> Inr st
      | Some ov \<Rightarrow> updateBoundingBoxes h page (currentFrame st) st)"

section \<open>Notions used in the statements\<close>

text \<open>
  The nodes of one tag in the layer, the well-formedness of a layer (node identities are
  distinct and were all handed out already), the primitives of a state without their
  identities and order, the records of a frame, and the video element a redraw reads.
\<close>

fun updates :: "(nat + unit) list \<Rightarrow> nat list" where
  "updates [] = []"
| "updates (Inl i # bs) = i # updates bs"
| "updates (Inr u # bs) = updates bs"

definition tagged :: "tag \<Rightarrow> node list \<Rightarrow> node list" where
  "tagged t cs = filter (\<lambda>n. node_tag n = t) cs"

definition wf_layer :: "node list \<Rightarrow> nat \<Rightarrow> bool" where
  "wf_layer cs fresh \<longleftrightarrow> distinct (map node_id cs) \<and> list_all (\<lambda>n. node_id n < fresh) cs"

definition wf_state :: "state \<Rightarrow> bool" where
  "wf_state st = (case svg st of None \<Rightarrow> True | Some ov \<Rightarrow> wf_layer (boxes ov) (next_node st))"

definition primitives :: "state \<Rightarrow> (tag \<times> detection \<times> shape) multiset" where
  "primitives st =
     (case svg st of
        None \<Rightarrow> {#}
      | Some ov \<Rightarrow> image_mset (\<lambda>n. (node_tag n, datum n, shape n)) (mset (boxes ov)))"

definition frame_records :: "jsval \<Rightarrow> state \<Rightarrow> detection list" where
  "frame_records frameNumber st =
     filter (\<lambda>d. strict_equals (frame d) frameNumber) (boundingBoxData st)"

definition video_of :: "dom \<Rightarrow> state \<Rightarrow> video_element option" where
  "video_of page st =
     (case svg st of
        None \<Rightarrow> None
      | Some ov \<Rightarrow> (case parentNode ov of None \<Rightarrow> None | Some c \<Rightarrow> content_video (page c)))"

definition valid_geometry :: "video_element \<Rightarrow> bool" where
  "valid_geometry v \<longleftrightarrow>
     ToBoolean (videoWidth v) \<and> ToBoolean (videoHeight v)
     \<and> truthy_number (rect_width (clientRect v)) \<and> truthy_number (rect_height (clientRect v))"

definition nodes_with_key :: "'a host_scheme \<Rightarrow> tag \<Rightarrow> string \<Rightarrow> state \<Rightarrow> nat list" where
  "nodes_with_key h t k st =
     (case svg st of
        None \<Rightarrow> []
      | Some ov \<Rightarrow> map node_id (filter (\<lambda>n. node_tag n = t \<and> key h (datum n) = k) (boxes ov)))"

definition redraw_layer ::
  "'a host_scheme \<Rightarrow> video_element \<Rightarrow> detection list \<Rightarrow> node list \<times> nat \<Rightarrow> node list \<times> nat" where
  "redraw_layer h v ds layer =
     join h Text (the_shape (text_shape h v)) ds (join h Rect (the_shape (rect_shape h v)) ds layer)"

definition drawn :: "'a host_scheme \<Rightarrow> video_element \<Rightarrow> detection list \<Rightarrow> (tag \<times> detection \<times> shape) multiset" where
  "drawn h v ds =
     image_mset (\<lambda>d. (Rect, d, the_shape (rect_shape h v) d)) (mset ds)
     + image_mset (\<lambda>d. (Text, d, the_shape (text_shape h v) d)) (mset ds)"

text \<open>
  The nodes of the box layer with their identities, and what the callbacks of a tag draw
  for a record.
\<close>

definition box_layer :: "state \<Rightarrow> node list" where
  "box_layer st = (case svg st of None \<Rightarrow> [] | Some ov \<Rightarrow> boxes ov)"

definition drawn_shape :: "'a host_scheme \<Rightarrow> video_element \<Rightarrow> tag \<Rightarrow> detection \<Rightarrow> shape" where
  "drawn_shape h v t =
     (case t of Rect \<Rightarrow> the_shape (rect_shape h v) | Text \<Rightarrow> the_shape (text_shape h v))"

section \<open>Example inputs\<close>

text \<open>
  The inputs the theorems below are exercised on: the module as it is loaded, a
  1920 by 1080 video displayed in a rectangle of 800 by 600, and a detection for frame 3.
\<close>

definition initial_state :: state where
  "initial_state =
     \<lparr>boundingBoxData = [], svg = None, currentFrame = JNum (Fin 0), console = [], next_node = 0\<rparr>"

definition example_host :: host where
  "example_host =
     \<lparr>StringToNumber = (\<lambda>s. NaN), NumberToString = (\<lambda>n. ''0''),
      classColors = [(''car'', ''red''), (''bus'', ''blue'')]\<rparr>"

definition example_video :: video_element where
  "example_video =
     \<lparr>videoWidth = JNum (Fin 1920), videoHeight = JNum (Fin 1080),
      clientRect = \<lparr>rect_top = Fin 0, rect_left = Fin 0, rect_width = Fin 800, rect_height = Fin 600\<rparr>\<rparr>"

definition video_1000_800 :: video_element where
  "video_1000_800 =
     \<lparr>videoWidth = JNum (Fin 1920), videoHeight = JNum (Fin 1080),
      clientRect = \<lparr>rect_top = Fin 0, rect_left = Fin 0, rect_width = Fin 1000, rect_height = Fin 800\<rparr>\<rparr>"

definition example_page :: dom where
  "example_page = (\<lambda>c.
     \<lparr>content_video = Some example_video,
      containerRect = \<lparr>rect_top = Fin 0, rect_left = Fin 0, rect_width = Fin 800, rect_height = Fin 600\<rparr>\<rparr>)"

definition page_without_video :: dom where
  "page_without_video = (\<lambda>c.
     \<lparr>content_video = None,
      containerRect = \<lparr>rect_top = Fin 0, rect_left = Fin 0, rect_width = Fin 800, rect_height = Fin 600\<rparr>\<rparr>)"

definition page_unloaded_video :: dom where
  "page_unloaded_video = (\<lambda>c.
     \<lparr>content_video = Some (example_video\<lparr>videoWidth := JNum (Fin 0), videoHeight := JNum (Fin 0)\<rparr>),
      containerRect = \<lparr>rect_top = Fin 0, rect_left = Fin 0, rect_width = Fin 800, rect_height = Fin 600\<rparr>\<rparr>)"

definition example_record :: detection where
  "example_record =
     \<lparr>frame = JNum (Fin 3), id' = JNum (Fin 1), class' = JStr ''car'',
      confidence = JNum (Fin 1),
      bbox = BBox [JNum (Fin 100), JNum (Fin 100), JNum (Fin 300), JNum (Fin 200)]\<rparr>"

definition inverted_record :: detection where
  "inverted_record = example_record\<lparr>bbox := BBox [JNum (Fin 300), JNum (Fin 100), JNum (Fin 100), JNum (Fin 200)]\<rparr>"

definition malformed_record :: detection where
  "malformed_record = example_record\<lparr>bbox := BBox [JNum (Fin 100), JStr ''abc'', JNum (Fin 300)]\<rparr>"

definition missing_bbox_record :: detection where
  "missing_bbox_record = example_record\<lparr>id' := JNum (Fin 2), bbox := NoBBox\<rparr>"

definition example_overlay :: overlay where
  "example_overlay =
     \<lparr>parentNode = Some 0, style_top = ''0px'', style_left = ''0px'', style_width = ''0px'',
      style_height = ''0px'', boxes = [], legend = []\<rparr>"

definition keyed_record :: "real \<Rightarrow> string \<Rightarrow> string \<Rightarrow> detection" where
  "keyed_record f k c = example_record\<lparr>frame := JNum (Fin f), id' := JStr k, class' := JStr c\<rparr>"

definition two_frame_state :: state where
  "two_frame_state =
     initial_state\<lparr>boundingBoxData :=
                     [keyed_record 1 ''1'' ''car'', keyed_record 1 ''2'' ''car'',
                      keyed_record 2 ''2'' ''bus'', keyed_record 2 ''3'' ''car''],
                   svg := Some example_overlay\<rparr>"

definition one_record_state :: state where
  "one_record_state = initial_state\<lparr>boundingBoxData := [example_record], svg := Some example_overlay\<rparr>"

definition inverted_state :: state where
  "inverted_state = initial_state\<lparr>boundingBoxData := [inverted_record], svg := Some example_overlay\<rparr>"

definition malformed_state :: state where
  "malformed_state = initial_state\<lparr>boundingBoxData := [malformed_record], svg := Some example_overlay\<rparr>"

definition missing_bbox_state :: state where
  "missing_bbox_state =
     initial_state\<lparr>boundingBoxData := [example_record, missing_bbox_record], svg := Some example_overlay\<rparr>"

section \<open>Rounding\<close>

lemma round_half_even_mono: "x \<le> y \<Longrightarrow> round_half_even x \<le> round_half_even y"
proof -
  assume xy: "x \<le> y"
  have fl: "\<lfloor>x\<rfloor> \<le> \<lfloor>y\<rfloor>" using xy by (rule floor_mono)
  show ?thesis
  proof (cases "\<lfloor>x\<rfloor> = \<lfloor>y\<rfloor>")
    case True
    then show ?thesis using xy by (auto simp: round_half_even_def Let_def)
  next
    case False
    then have "\<lfloor>x\<rfloor> + 1 \<le> \<lfloor>y\<rfloor>" using fl by simp
    moreover have "round_half_even x \<le> \<lfloor>x\<rfloor> + 1" by (auto simp: round_half_even_def Let_def)
    moreover have "\<lfloor>y\<rfloor> \<le> round_half_even y" by (auto simp: round_half_even_def Let_def)
    ultimately show ?thesis by linarith
  qed
qed

lemma round_half_even_of_int: "round_half_even (of_int n) = n"
  by (simp add: round_half_even_def)

lemma round_half_even_eqI:
  assumes "of_int m - 1/2 < x" "x < of_int m + 1/2"
  shows "round_half_even x = m"
proof -
  have "\<lfloor>x\<rfloor> = m \<or> \<lfloor>x\<rfloor> = m - 1" using assms by linarith
  then show ?thesis using assms by (auto simp: round_half_even_def Let_def)
qed

lemma round_half_even_tie:
  assumes "x = of_int m + 1/2"
  shows "round_half_even x = (if even m then m else m + 1)"
proof -
  have "\<lfloor>x\<rfloor> = m" using assms by linarith
  then show ?thesis using assms by (auto simp: round_half_even_def Let_def)
qed

lemma pow2_less_iff: "(2::real) powi m < 2 powi n \<longleftrightarrow> m < n"
proof
  assume l: "(2::real) powi m < 2 powi n"
  show "m < n"
  proof (rule ccontr)
    assume "\<not> m < n"
    then have "n \<le> m" by simp
    then have "(2::real) powi n \<le> 2 powi m" by (intro power_int_increasing) simp_all
    with l show False by simp
  qed
next
  assume "m < n" then show "(2::real) powi m < 2 powi n"
    by (intro power_int_strict_increasing) simp_all
qed

lemma pow2_le_iff: "(2::real) powi m \<le> 2 powi n \<longleftrightarrow> m \<le> n"
  using pow2_less_iff[of n m] by (auto simp: not_less[symmetric])

lemma emin_le_emax: "emin \<le> emax"
  by (simp add: emin_def emax_def)

lemma finite_binades: "finite (binades a)"
proof -
  have "Set.filter (\<lambda>k. 2 powi k \<le> a) {emin..emax} \<subseteq> {emin..emax}" by auto
  then have "finite (Set.filter (\<lambda>k. 2 powi k \<le> a) {emin..emax})"
    by (rule finite_subset) simp
  then show ?thesis by (simp add: binades_def)
qed

lemma binades_iff:
  "k \<in> binades a \<longleftrightarrow> k = emin \<or> (emin \<le> k \<and> k \<le> emax \<and> 2 powi k \<le> a)"
  by (auto simp: binades_def)

lemma expo_in: "expo a \<in> binades a"
  unfolding expo_def by (rule Max_in[OF finite_binades]) (simp add: binades_def)

lemma expo_range: "emin \<le> expo a \<and> expo a \<le> emax"
  using expo_in[of a] emin_le_emax by (auto simp: binades_iff)

lemma expo_mono: "a \<le> b \<Longrightarrow> expo a \<le> expo b"
  unfolding expo_def
  by (rule Max_mono) (auto simp: binades_iff finite_binades)

lemma expo_upper:
  assumes "expo a < emax" shows "a < 2 powi (expo a + 1)"
proof (rule ccontr)
  assume n: "\<not> a < 2 powi (expo a + 1)"
  have "expo a + 1 \<in> binades a" using n assms expo_range[of a] by (simp add: binades_iff)
  then have "expo a + 1 \<le> Max (binades a)" by (intro Max_ge finite_binades)
  then show False unfolding expo_def by simp
qed

lemma expo_eqI:
  assumes "2 powi k \<le> a" "a < 2 powi (k + 1)" "emin \<le> k" "k \<le> emax"
  shows "expo a = k"
  unfolding expo_def
proof (rule Max_eqI[OF finite_binades])
  fix y assume "y \<in> binades a"
  then have "y = emin \<or> 2 powi y \<le> a" by (auto simp: binades_iff)
  then show "y \<le> k"
  proof
    assume "y = emin" then show ?thesis using assms by simp
  next
    assume "2 powi y \<le> a"
    then have "(2::real) powi y < 2 powi (k + 1)" using assms(2) by linarith
    then have "y < k + 1" by (simp add: pow2_less_iff)
    then show ?thesis by simp
  qed
next
  show "k \<in> binades a" using assms by (simp add: binades_iff)
qed

lemma expo_subnormal:
  assumes "a < 2 powi emin" shows "expo a = emin"
  unfolding expo_def
proof (rule Max_eqI[OF finite_binades])
  fix y assume "y \<in> binades a"
  then have "y = emin \<or> (emin \<le> y \<and> 2 powi y \<le> a)" by (auto simp: binades_iff)
  then show "y \<le> emin"
  proof
    assume "emin \<le> y \<and> 2 powi y \<le> a"
    then have "(2::real) powi y < 2 powi emin" "emin \<le> y" using assms by linarith+
    then show ?thesis by (simp add: pow2_less_iff)
  qed simp
next
  show "emin \<in> binades a" by (simp add: binades_iff)
qed

lemma round_half_even_pow2: "0 \<le> k \<Longrightarrow> real_of_int (round_half_even (2 powi k)) = 2 powi k"
proof -
  assume k: "0 \<le> k"
  have "(2::real) powi k = of_int (2 ^ nat k)" using k by (simp add: power_int_def)
  then show ?thesis using round_half_even_of_int[of "2 ^ nat k"] by simp
qed

lemma mant_bits_nonneg: "0 \<le> mant_bits"
  by (simp add: mant_bits_def)

lemma round_mag_mono:
  assumes "x \<le> y"
  shows "round_mag x \<le> round_mag y"
proof (cases "expo x = expo y")
  case True
  have "x / 2 powi (expo y - mant_bits) \<le> y / 2 powi (expo y - mant_bits)"
    using assms by (simp add: divide_right_mono)
  then have "round_half_even (x / 2 powi (expo y - mant_bits))
      \<le> round_half_even (y / 2 powi (expo y - mant_bits))"
    by (rule round_half_even_mono)
  then show ?thesis unfolding round_mag_def True
    by (simp add: mult_right_mono)
next
  case False
  then have lt: "expo x < expo y" using expo_mono[OF assms] by simp
  then have xlt: "expo x < emax" using expo_range[of y] by simp
  have xup: "x < 2 powi (expo x + 1)" by (rule expo_upper[OF xlt])
  have ygt: "emin < expo y" using lt expo_range[of x] by simp
  have "expo y \<in> binades y" by (rule expo_in)
  then have ylo: "2 powi (expo y) \<le> y" using ygt by (auto simp: binades_iff)
  have p: "(0::real) < 2 powi (expo x - mant_bits)" "(0::real) < 2 powi (expo y - mant_bits)"
    by simp_all
  have "x / 2 powi (expo x - mant_bits) \<le> 2 powi (expo x + 1) / 2 powi (expo x - mant_bits)"
    using xup by (simp add: divide_right_mono)
  also have "\<dots> = 2 powi (mant_bits + 1)"
    by (simp add: power_int_diff[symmetric] algebra_simps)
  finally have "round_half_even (x / 2 powi (expo x - mant_bits))
      \<le> round_half_even (2 powi (mant_bits + 1))"
    by (rule round_half_even_mono)
  then have mx: "real_of_int (round_half_even (x / 2 powi (expo x - mant_bits)))
      \<le> 2 powi (mant_bits + 1)"
    using round_half_even_pow2[of "mant_bits + 1"] mant_bits_nonneg by linarith
  have "(2::real) powi mant_bits = 2 powi (expo y) / 2 powi (expo y - mant_bits)"
    by (simp add: power_int_diff[symmetric])
  also have "\<dots> \<le> y / 2 powi (expo y - mant_bits)"
    using ylo by (simp add: divide_right_mono)
  finally have "round_half_even (2 powi mant_bits)
      \<le> round_half_even (y / 2 powi (expo y - mant_bits))"
    by (rule round_half_even_mono)
  then have my: "2 powi mant_bits \<le> real_of_int (round_half_even (y / 2 powi (expo y - mant_bits)))"
    using round_half_even_pow2[of "mant_bits"] mant_bits_nonneg by linarith
  have "round_mag x \<le> 2 powi (mant_bits + 1) * 2 powi (expo x - mant_bits)"
    unfolding round_mag_def using mx p(1) by (intro mult_right_mono) simp_all
  also have "\<dots> = 2 powi (expo x + 1)"
    by (simp add: power_int_add[symmetric] add.commute)
  also have "\<dots> \<le> 2 powi (expo y)" using lt by (simp add: pow2_le_iff)
  also have "\<dots> = 2 powi mant_bits * 2 powi (expo y - mant_bits)"
    by (simp add: power_int_add[symmetric])
  also have "\<dots> \<le> round_mag y"
    unfolding round_mag_def using my p(2) by (intro mult_right_mono) simp_all
  finally show ?thesis .
qed

lemma round_mag_nonneg: "0 \<le> a \<Longrightarrow> 0 \<le> round_mag a"
proof -
  assume "0 \<le> a"
  then have "0 \<le> a / 2 powi (expo a - mant_bits)" by simp
  then have "round_half_even 0 \<le> round_half_even (a / 2 powi (expo a - mant_bits))"
    by (rule round_half_even_mono)
  then have "0 \<le> round_half_even (a / 2 powi (expo a - mant_bits))"
    using round_half_even_of_int[of 0] by simp
  then show ?thesis by (simp add: round_mag_def)
qed

text \<open>Evaluating the rounding of a given number: the binade and the rounded significand.\<close>

lemma round_mag_eqI:
  assumes "2 powi k \<le> a" "a < 2 powi (k + 1)" "emin \<le> k" "k \<le> emax"
    and "round_half_even (a / 2 powi (k - mant_bits)) = m"
  shows "round_mag a = of_int m * 2 powi (k - mant_bits)"
  using expo_eqI[OF assms(1-4)] assms(5) by (simp add: round_mag_def)

lemma round_mag_exact:
  assumes "2 powi k \<le> a" "a < 2 powi (k + 1)" "emin \<le> k" "k \<le> emax"
    and "a / 2 powi (k - mant_bits) = of_int m"
  shows "round_mag a = a"
proof -
  have "round_mag a = of_int m * 2 powi (k - mant_bits)"
    by (rule round_mag_eqI[OF assms(1-4)]) (simp add: assms(5) round_half_even_of_int)
  also have "\<dots> = a" using assms(5)[symmetric] by simp
  finally show ?thesis .
qed

lemma round_mag_0: "round_mag 0 = 0"
  by (simp add: round_mag_def round_half_even_of_int[of 0, simplified])

section \<open>Early return of updateBoundingBoxes\<close>

text \<open>
  C7. For every frame number, when no overlay surface has been constructed or the
  detection records are empty, \<open>updateBoundingBoxes\<close> returns at once: the state
  (the primitives, \<open>currentFrame\<close>, the console) is the one it was called with, and
  nothing is thrown.
\<close>

theorem updateBoundingBoxes_no_surface_or_no_records:
  assumes "svg st = None \<or> boundingBoxData st = []"
  shows "updateBoundingBoxes h page frameNumber st = Inr st"
  using assms by (auto simp: updateBoundingBoxes_def split: option.splits)

theorem updateBoundingBoxes_no_records_witness:
  "updateBoundingBoxes example_host example_page (JNum (Fin 5))
     (initial_state\<lparr>svg := Some example_overlay\<rparr>)
   = Inr (initial_state\<lparr>svg := Some example_overlay\<rparr>)"
  using updateBoundingBoxes_no_surface_or_no_records
    [of "initial_state\<lparr>svg := Some example_overlay\<rparr>" example_host example_page "JNum (Fin 5)"]
  by (simp add: initial_state_def)

section \<open>loadBoundingBoxData\<close>

text \<open>
  C4. \<open>loadBoundingBoxData\<close> has no exceptional result. When the document was fetched
  and parsed, the records are replaced by it and \<open>currentFrame\<close> is reset to 0; on
  every failure the error is logged and the records become empty. In both cases the
  records afterwards do not depend on the records before: nothing stale is kept or merged.
\<close>

theorem loadBoundingBoxData_replace_or_clear:
  "(\<forall>records. loadBoundingBoxData (Document records) st
       = st\<lparr>boundingBoxData := records, currentFrame := JNum (Fin 0)\<rparr>)
   \<and> (\<forall>r. (\<forall>records. r \<noteq> Document records) \<longrightarrow>
         loadBoundingBoxData r st
           = st\<lparr>console := console st @ [''Error loading bounding box data:''],
                 boundingBoxData := []\<rparr>)
   \<and> (\<forall>r st'. boundingBoxData (loadBoundingBoxData r st)
         = boundingBoxData (loadBoundingBoxData r st'))"
proof (intro conjI allI impI)
  fix records
  show "loadBoundingBoxData (Document records) st
       = st\<lparr>boundingBoxData := records, currentFrame := JNum (Fin 0)\<rparr>" by simp
next
  fix r assume "\<forall>records. r \<noteq> Document records"
  then show "loadBoundingBoxData r st
           = st\<lparr>console := console st @ [''Error loading bounding box data:''],
                 boundingBoxData := []\<rparr>"
    by (cases r) simp_all
next
  fix r st'
  show "boundingBoxData (loadBoundingBoxData r st) = boundingBoxData (loadBoundingBoxData r st')"
    by (cases r) simp_all
qed

theorem loadBoundingBoxData_failure_witness:
  "boundingBoxData (loadBoundingBoxData SyntaxError (initial_state\<lparr>boundingBoxData := [example_record]\<rparr>)) = []
   \<and> boundingBoxData (loadBoundingBoxData (Document [example_record, example_record]) (initial_state\<lparr>boundingBoxData := [example_record]\<rparr>)) = [example_record, example_record]"
  using loadBoundingBoxData_replace_or_clear[of "initial_state\<lparr>boundingBoxData := [example_record]\<rparr>"]
  by simp

section \<open>The two ways updateBoundingBoxes gives up\<close>

text \<open>
  C10. When \<open>updateBoundingBoxes\<close> returns because there is no surface or no record,
  \<open>currentFrame\<close> keeps its value; when it returns because a dimension of the video or
  of its displayed rectangle is falsy, \<open>currentFrame\<close> is already the requested frame.
  \<open>handleResize\<close> hands \<open>currentFrame\<close> to \<open>updateBoundingBoxes\<close>: the requested
  frame after the second kind of return, the earlier frame after the first (and it
  calls nothing while there is no surface).
\<close>

theorem abort_paths_currentFrame:
  "(svg st = None \<or> boundingBoxData st = [] \<longrightarrow>
      updateBoundingBoxes h page frameNumber st = Inr st)
   \<and> (\<forall>ov c v.
        svg st = Some ov \<and> boundingBoxData st \<noteq> [] \<and> parentNode ov = Some c
        \<and> content_video (page c) = Some v
        \<and> (\<not> ToBoolean (videoWidth v) \<or> \<not> ToBoolean (videoHeight v)
             \<or> \<not> truthy_number (rect_width (clientRect v))
             \<or> \<not> truthy_number (rect_height (clientRect v)))
        \<longrightarrow>
          updateBoundingBoxes h page frameNumber st = Inr (st\<lparr>currentFrame := frameNumber\<rparr>)
          \<and> handleResize h page' (st\<lparr>currentFrame := frameNumber\<rparr>)
              = updateBoundingBoxes h page' frameNumber (st\<lparr>currentFrame := frameNumber\<rparr>))
   \<and> handleResize h page' st
       = (case svg st of None \<Rightarrow> Inr st
          | Some ov \<Rightarrow> updateBoundingBoxes h page' (currentFrame st) st)"
proof (intro conjI allI impI)
  assume "svg st = None \<or> boundingBoxData st = []"
  then show "updateBoundingBoxes h page frameNumber st = Inr st"
    by (auto simp: updateBoundingBoxes_def split: option.splits)
next
  fix ov c v
  assume a: "svg st = Some ov \<and> boundingBoxData st \<noteq> [] \<and> parentNode ov = Some c
        \<and> content_video (page c) = Some v
        \<and> (\<not> ToBoolean (videoWidth v) \<or> \<not> ToBoolean (videoHeight v)
             \<or> \<not> truthy_number (rect_width (clientRect v))
             \<or> \<not> truthy_number (rect_height (clientRect v)))"
  then show "updateBoundingBoxes h page frameNumber st = Inr (st\<lparr>currentFrame := frameNumber\<rparr>)"
    by (auto simp: updateBoundingBoxes_def Let_def)
  from a show "handleResize h page' (st\<lparr>currentFrame := frameNumber\<rparr>)
      = updateBoundingBoxes h page' frameNumber (st\<lparr>currentFrame := frameNumber\<rparr>)"
    by (simp add: handleResize_def)
next
  show "handleResize h page' st
       = (case svg st of None \<Rightarrow> Inr st
          | Some ov \<Rightarrow> updateBoundingBoxes h page' (currentFrame st) st)"
    by (simp add: handleResize_def)
qed

theorem abort_paths_currentFrame_witness:
  "updateBoundingBoxes example_host page_unloaded_video (JNum (Fin 7))
      (initial_state\<lparr>boundingBoxData := [example_record], svg := Some example_overlay\<rparr>)
     = Inr (initial_state\<lparr>boundingBoxData := [example_record], svg := Some example_overlay,
                           currentFrame := JNum (Fin 7)\<rparr>)
   \<and> updateBoundingBoxes example_host page_unloaded_video (JNum (Fin 7))
      (initial_state\<lparr>boundingBoxData := [example_record]\<rparr>)
     = Inr (initial_state\<lparr>boundingBoxData := [example_record]\<rparr>)
   \<and> currentFrame initial_state = JNum (Fin 0)"
proof -
  let ?st = "initial_state\<lparr>boundingBoxData := [example_record], svg := Some example_overlay\<rparr>"
  have late: "svg ?st = Some example_overlay \<and> boundingBoxData ?st \<noteq> []
        \<and> parentNode example_overlay = Some 0
        \<and> content_video (page_unloaded_video 0)
            = Some (example_video\<lparr>videoWidth := JNum (Fin 0), videoHeight := JNum (Fin 0)\<rparr>)
        \<and> (\<not> ToBoolean (videoWidth (example_video\<lparr>videoWidth := JNum (Fin 0), videoHeight := JNum (Fin 0)\<rparr>))
             \<or> \<not> ToBoolean (videoHeight (example_video\<lparr>videoWidth := JNum (Fin 0), videoHeight := JNum (Fin 0)\<rparr>))
             \<or> \<not> truthy_number (rect_width (clientRect (example_video\<lparr>videoWidth := JNum (Fin 0), videoHeight := JNum (Fin 0)\<rparr>)))
             \<or> \<not> truthy_number (rect_height (clientRect (example_video\<lparr>videoWidth := JNum (Fin 0), videoHeight := JNum (Fin 0)\<rparr>))))"
    by (simp add: initial_state_def example_overlay_def page_unloaded_video_def)
  have early: "svg (initial_state\<lparr>boundingBoxData := [example_record]\<rparr>) = None
      \<or> boundingBoxData (initial_state\<lparr>boundingBoxData := [example_record]\<rparr>) = []"
    by (simp add: initial_state_def)
  show ?thesis
    using abort_paths_currentFrame[of ?st example_host page_unloaded_video "JNum (Fin 7)" example_page]
      abort_paths_currentFrame[of "initial_state\<lparr>boundingBoxData := [example_record]\<rparr>"
         example_host page_unloaded_video "JNum (Fin 7)" example_page]
      late early
    by (simp add: initial_state_def)
qed

section \<open>A failed initialisation\<close>

lemma initializeBoundingBoxes_first_failure:
  assumes "content_video (page c) = None" "svg st = None"
  shows "svg (initializeBoundingBoxes h page c st) = None
    \<and> console (initializeBoundingBoxes h page c st)
        = console st @ [''Error initializing bounding boxes:'']
    \<and> updateBoundingBoxes h page' f (initializeBoundingBoxes h page c st)
        = Inr (initializeBoundingBoxes h page c st)"
  using assms
  by (simp add: initializeBoundingBoxes_def remove_overlay_def updateBoundingBoxes_def)

text \<open>
  C5. A surface is created for a container, records are loaded, and the container is
  initialised again after its video element has gone. The second initialisation logs its
  error and throws nothing, but the variable \<open>svg\<close> still refers to the surface it has
  just detached: the next \<open>updateBoundingBoxes\<close> passes the guard and throws a
  TypeError where it reads the parent of the surface.
\<close>

theorem failed_initialize_after_success:
  "console (initializeBoundingBoxes example_host page_without_video 0
       (loadBoundingBoxData (Document [example_record])
          (initializeBoundingBoxes example_host example_page 0 initial_state)))
     = [''Error initializing bounding boxes:'']
   \<and> svg (initializeBoundingBoxes example_host page_without_video 0
       (loadBoundingBoxData (Document [example_record])
          (initializeBoundingBoxes example_host example_page 0 initial_state))) \<noteq> None
   \<and> updateBoundingBoxes example_host page_without_video (JNum (Fin 3))
       (initializeBoundingBoxes example_host page_without_video 0
         (loadBoundingBoxData (Document [example_record])
            (initializeBoundingBoxes example_host example_page 0 initial_state)))
     = Inl TypeError"
  by (simp add: initializeBoundingBoxes_def remove_overlay_def updateBoundingBoxes_def
      initial_state_def example_page_def page_without_video_def Let_def)

theorem failed_initialize_after_success_not_noop:
  "\<forall>st. updateBoundingBoxes example_host page_without_video (JNum (Fin 3))
       (initializeBoundingBoxes example_host page_without_video 0
         (loadBoundingBoxData (Document [example_record])
            (initializeBoundingBoxes example_host example_page 0 initial_state)))
     \<noteq> Inr st"
  using failed_initialize_after_success by simp

section \<open>Facts about the arithmetic\<close>

lemma pow2_not_le_0: "\<not> (2::real) powi n \<le> 0"
  by (simp add: not_le)

lemma round_binary64_not_NaN: "round_binary64 x \<noteq> NaN"
  by (simp add: round_binary64_def Let_def)

lemma round_binary64_0: "round_binary64 0 = Fin 0"
  by (simp add: round_binary64_def Let_def round_mag_0 pow2_not_le_0)

lemma round_binary64_neg: "round_binary64 (- x) = js_neg (round_binary64 x)"
  by (cases "x = 0") (auto simp: round_binary64_def Let_def round_mag_0 pow2_not_le_0)

lemma round_binary64_eqI:
  assumes "0 < x" "2 powi k \<le> x" "x < 2 powi (k + 1)" "emin \<le> k" "k \<le> emax"
    and "of_int m - 1/2 < x / 2 powi (k - mant_bits)"
    and "x / 2 powi (k - mant_bits) < of_int m + 1/2"
    and "real_of_int m * 2 powi (k - mant_bits) < 2 powi (emax + 1)"
  shows "round_binary64 x = Fin (of_int m * 2 powi (k - mant_bits))"
proof -
  have "round_mag x = of_int m * 2 powi (k - mant_bits)"
    by (rule round_mag_eqI[OF assms(2-5)]) (rule round_half_even_eqI[OF assms(6,7)])
  then show ?thesis using assms(1,8) by (simp add: round_binary64_def Let_def)
qed

lemma round_binary64_tieI:
  assumes "0 < x" "2 powi k \<le> x" "x < 2 powi (k + 1)" "emin \<le> k" "k \<le> emax"
    and "x / 2 powi (k - mant_bits) = of_int m + 1/2"
    and "real_of_int (if even m then m else m + 1) * 2 powi (k - mant_bits) < 2 powi (emax + 1)"
  shows "round_binary64 x = Fin (of_int (if even m then m else m + 1) * 2 powi (k - mant_bits))"
proof -
  have "round_mag x = of_int (if even m then m else m + 1) * 2 powi (k - mant_bits)"
    by (rule round_mag_eqI[OF assms(2-5)]) (rule round_half_even_tie[OF assms(6)])
  then show ?thesis using assms(1,7) by (simp add: round_binary64_def Let_def)
qed

lemma round_binary64_mono:
  assumes "x \<le> y"
  shows "js_le (round_binary64 x) (round_binary64 y)"
proof -
  consider "0 \<le> x" | "x < 0" "0 \<le> y" | "y < 0" by linarith
  then show ?thesis
  proof cases
    case 1
    then have "round_mag \<bar>x\<bar> \<le> round_mag \<bar>y\<bar>" using assms by (intro round_mag_mono) simp
    then show ?thesis using 1 assms
      by (auto simp: round_binary64_def Let_def round_mag_0 pow2_not_le_0)
  next
    case 2
    have "0 \<le> round_mag \<bar>x\<bar>" "0 \<le> round_mag \<bar>y\<bar>" by (simp_all add: round_mag_nonneg)
    then show ?thesis using 2
      by (auto simp: round_binary64_def Let_def round_mag_0 pow2_not_le_0)
  next
    case 3
    then have "round_mag \<bar>y\<bar> \<le> round_mag \<bar>x\<bar>" using assms by (intro round_mag_mono) simp
    then show ?thesis using 3 assms by (auto simp: round_binary64_def Let_def)
  qed
qed

lemma js_le_refl: "a \<noteq> NaN \<Longrightarrow> js_le a a"
  by (cases a) simp_all

lemma js_less_imp_le: "js_less a b \<Longrightarrow> js_le a b"
  by (cases a; cases b) simp_all

lemma not_js_less_imp_le: "\<not> js_less b a \<Longrightarrow> a \<noteq> NaN \<Longrightarrow> b \<noteq> NaN \<Longrightarrow> js_le a b"
  by (cases a; cases b) simp_all

lemma Math_min_le:
  assumes "a \<noteq> NaN" "b \<noteq> NaN"
  shows "js_le (Math_min a b) a" "js_le (Math_min a b) b" "Math_min a b = a \<or> Math_min a b = b"
  using assms
  by (auto simp: Math_min_def js_le_refl js_less_imp_le not_js_less_imp_le)

lemma round_binary64_nonneg:
  assumes "0 \<le> x"
  shows "round_binary64 x = PInf \<or> (\<exists>q. round_binary64 x = Fin q \<and> 0 \<le> q)"
proof (cases "x = 0")
  case True
  then show ?thesis by (simp add: round_binary64_0)
next
  case False
  then have "0 < x" using assms by simp
  moreover have "0 \<le> round_mag x" using assms by (rule round_mag_nonneg)
  ultimately show ?thesis by (simp add: round_binary64_def Let_def)
qed

lemma js_mul_mono:
  assumes "0 < w" "js_le a b" "a = PInf \<or> (\<exists>x. a = Fin x \<and> 0 \<le> x)"
    "b = PInf \<or> (\<exists>y. b = Fin y \<and> 0 \<le> y)"
  shows "js_le (js_mul (Fin w) a) (js_mul (Fin w) b)"
proof -
  consider x y where "a = Fin x" "b = Fin y" "x \<le> y" | "b = PInf"
    using assms(2-4) by auto
  then show ?thesis
  proof cases
    case 1
    then have "w * x \<le> w * y" using assms(1) by simp
    then show ?thesis using 1 by (simp add: round_binary64_mono)
  next
    case 2
    have "js_mul (Fin w) a \<noteq> NaN" using assms(1,3) by (auto simp: round_binary64_not_NaN)
    moreover have "js_mul (Fin w) PInf = PInf" using assms(1) by simp
    ultimately show ?thesis using 2 by (cases "js_mul (Fin w) a") simp_all
  qed
qed

section \<open>The fitted size\<close>

lemma q_1000_1920: "round_binary64 (25 / 48) = Fin (4691249611844267 / 9007199254740992)"
  using round_binary64_eqI[of "25 / 48" "-1" "4691249611844267"]
  by (simp add: emin_def emax_def mant_bits_def)

lemma p_1920_q1000: "round_binary64 (70368744177664005 / 70368744177664) = Fin (8796093022208001 / 8796093022208)"
  using round_binary64_eqI[of "70368744177664005 / 70368744177664" "9" "8796093022208001"]
  by (simp add: emin_def emax_def mant_bits_def)

lemma p_1080_q1000: "round_binary64 (633318697598976045 / 1125899906842624) = Fin (1125 / 2)"
  using round_binary64_eqI[of "633318697598976045 / 1125899906842624" "9" "4947802324992000"]
  by (simp add: emin_def emax_def mant_bits_def)

lemma q_800_1080: "round_binary64 (20 / 27) = Fin (3335999723978145 / 4503599627370496)"
  using round_binary64_eqI[of "20 / 27" "-1" "6671999447956290"]
  by (simp add: emin_def emax_def mant_bits_def)


lemma scale_1000_800: "scale h video_1000_800 = Fin (4691249611844267 / 9007199254740992)"
  by (simp add: scale_def video_1000_800_def q_1000_1920 q_800_1080 Math_min_def)

lemma actualWidth_1000_800: "actualWidth h video_1000_800 = Fin (8796093022208001 / 8796093022208)"
  by (simp add: actualWidth_def scale_1000_800) (simp add: video_1000_800_def p_1920_q1000)

lemma actualHeight_1000_800: "actualHeight h video_1000_800 = Fin (1125 / 2)"
  by (simp add: actualHeight_def scale_1000_800) (simp add: video_1000_800_def p_1080_q1000)


lemma aspect_fit_round_trip:
  assumes "videoWidth v = JNum (Fin w)" "videoHeight v = JNum (Fin h')"
    and "rect_width (clientRect v) = Fin W" "rect_height (clientRect v) = Fin H"
    and "0 < w" "0 < h'" "0 < W" "0 < H"
  shows "js_le (actualWidth h v) (js_mul (Fin w) (js_div (Fin W) (Fin w)))
       \<and> js_le (actualHeight h v) (js_mul (Fin h') (js_div (Fin H) (Fin h')))
       \<and> (actualWidth h v = js_mul (Fin w) (js_div (Fin W) (Fin w))
            \<or> actualHeight h v = js_mul (Fin h') (js_div (Fin H) (Fin h')))
       \<and> (js_mul (Fin w) (js_div (Fin W) (Fin w)) = Fin W
            \<and> js_mul (Fin h') (js_div (Fin H) (Fin h')) = Fin H
          \<longrightarrow> js_le (actualWidth h v) (Fin W) \<and> js_le (actualHeight h v) (Fin H)
              \<and> (actualWidth h v = Fin W \<or> actualHeight h v = Fin H))"
proof -
  define qw where "qw = js_div (Fin W) (Fin w)"
  define qh where "qh = js_div (Fin H) (Fin h')"
  have qw: "qw = round_binary64 (W / w)" and qh: "qh = round_binary64 (H / h')"
    using assms(5,6) by (simp_all add: qw_def qh_def)
  have cw: "qw = PInf \<or> (\<exists>x. qw = Fin x \<and> 0 \<le> x)"
    unfolding qw using assms(5,7) by (intro round_binary64_nonneg) simp
  have ch: "qh = PInf \<or> (\<exists>x. qh = Fin x \<and> 0 \<le> x)"
    unfolding qh using assms(6,8) by (intro round_binary64_nonneg) simp
  have nn: "qw \<noteq> NaN" "qh \<noteq> NaN" unfolding qw qh by (simp_all add: round_binary64_not_NaN)
  have sc: "scale h v = Math_min qw qh"
    using assms(1-4) by (simp add: scale_def qw_def qh_def del: js_div.simps)
  have cs: "scale h v = PInf \<or> (\<exists>x. scale h v = Fin x \<and> 0 \<le> x)"
    using Math_min_le(3)[OF nn] cw ch unfolding sc by auto
  have aw: "actualWidth h v = js_mul (Fin w) (scale h v)"
    and ah: "actualHeight h v = js_mul (Fin h') (scale h v)"
    using assms(1,2) by (simp_all add: actualWidth_def actualHeight_def)
  have 1: "js_le (actualWidth h v) (js_mul (Fin w) qw)"
    unfolding aw using Math_min_le(1)[OF nn] by (intro js_mul_mono[OF assms(5) _ cs cw]) (simp add: sc)
  have 2: "js_le (actualHeight h v) (js_mul (Fin h') qh)"
    unfolding ah using Math_min_le(2)[OF nn] by (intro js_mul_mono[OF assms(6) _ cs ch]) (simp add: sc)
  have 3: "actualWidth h v = js_mul (Fin w) qw \<or> actualHeight h v = js_mul (Fin h') qh"
    unfolding aw ah sc using Math_min_le(3)[OF nn] by auto
  show ?thesis using 1 2 3 unfolding qw_def qh_def by auto
qed

lemma q_800_1920: "round_binary64 (5 / 12) = Fin (7505999378950827 / 18014398509481984)"
  using round_binary64_eqI[of "5 / 12" "-2" "7505999378950827"]
  by (simp add: emin_def emax_def mant_bits_def)

lemma q_600_1080: "round_binary64 (5 / 9) = Fin (2501999792983609 / 4503599627370496)"
  using round_binary64_eqI[of "5 / 9" "-1" "5003999585967218"]
  by (simp add: emin_def emax_def mant_bits_def)

lemma aw_800: "round_binary64 (112589990684262405 / 140737488355328) = Fin (800)"
  using round_binary64_eqI[of "112589990684262405 / 140737488355328" "9" "7036874417766400"]
  by (simp add: emin_def emax_def mant_bits_def)

lemma ah_800: "round_binary64 (1013309916158361645 / 2251799813685248) = Fin (450)"
  using round_binary64_eqI[of "1013309916158361645 / 2251799813685248" "8" "7916483719987200"]
  by (simp add: emin_def emax_def mant_bits_def)

lemma example_scale: "scale h example_video = Fin (7505999378950827 / 18014398509481984)"
  by (simp add: scale_def example_video_def q_800_1920 q_600_1080 Math_min_def)

lemma example_actualWidth: "actualWidth h example_video = Fin 800"
  by (simp add: actualWidth_def example_scale) (simp add: example_video_def aw_800)

lemma example_actualHeight: "actualHeight h example_video = Fin 450"
  by (simp add: actualHeight_def example_scale) (simp add: example_video_def ah_800)

lemma round_half_even_error: "\<bar>real_of_int (round_half_even t) - t\<bar> \<le> 1/2"
  by (auto simp: round_half_even_def Let_def)

lemma expo_lower: "2 powi emin \<le> a \<Longrightarrow> 2 powi (expo a) \<le> a"
  using expo_in[of a] by (auto simp: binades_iff)

lemma round_mag_error:
  assumes "2 powi emin \<le> a"
  shows "\<bar>round_mag a - a\<bar> \<le> a * unit_roundoff"
proof -
  define P where "P = (2::real) powi (expo a - mant_bits)"
  have P: "0 < P" by (simp add: P_def)
  have a: "a = a / P * P" using P by simp
  have "round_mag a - a = (real_of_int (round_half_even (a / P)) - a / P) * P"
    using P by (simp add: round_mag_def P_def[symmetric] algebra_simps)
  then have "\<bar>round_mag a - a\<bar> = \<bar>real_of_int (round_half_even (a / P)) - a / P\<bar> * P"
    using P by (simp add: abs_mult)
  also have "\<dots> \<le> 1/2 * P"
    using round_half_even_error[of "a / P"] P by (intro mult_right_mono) simp_all
  also have "1/2 * P = 2 powi (expo a) * unit_roundoff"
    by (simp add: P_def unit_roundoff_def power_int_diff power_int_minus field_simps)
  also have "\<dots> \<le> a * unit_roundoff"
    using expo_lower[OF assms] by (intro mult_right_mono) (simp_all add: unit_roundoff_def)
  finally show ?thesis .
qed

lemma unit_roundoff_bounds: "0 < unit_roundoff" "unit_roundoff < 1"
proof -
  show "0 < unit_roundoff" by (simp add: unit_roundoff_def)
  have "(2::real) powi (- mant_bits - 1) < 2 powi 0"
    unfolding pow2_less_iff by (simp add: mant_bits_def)
  then show "unit_roundoff < 1" by (simp add: unit_roundoff_def)
qed

lemma round_binary64_error:
  assumes "2 powi emin \<le> x" "x < 2 powi emax"
  shows "\<exists>r. round_binary64 x = Fin r \<and> x * (1 - unit_roundoff) \<le> r \<and> r \<le> x * (1 + unit_roundoff)"
proof -
  have pos: "0 < x" using assms(1) by (meson less_le_trans zero_less_numeral zero_less_power_int)
  have e: "\<bar>round_mag x - x\<bar> \<le> x * unit_roundoff" by (rule round_mag_error[OF assms(1)])
  then have b: "x * (1 - unit_roundoff) \<le> round_mag x" "round_mag x \<le> x * (1 + unit_roundoff)"
    by (simp_all add: algebra_simps abs_le_iff)
  have "x * (1 + unit_roundoff) < 2 powi emax * 2"
    using assms(2) pos unit_roundoff_bounds
    by (intro mult_strict_mono) simp_all
  also have "(2::real) powi emax * 2 = 2 powi (emax + 1)" by (simp add: power_int_add)
  finally have "round_mag x < 2 powi (emax + 1)" using b(2) by simp
  then show ?thesis using pos b by (simp add: round_binary64_def Let_def)
qed

lemma Math_min_Fin: "Math_min (Fin a) (Fin b) = Fin (min a b)"
  by (auto simp: Math_min_def min_def)

lemma pow_bounds:
  "(2::real) powi emin \<le> 2 powi (-302)" "(2::real) powi 302 < 2 powi emax"
  unfolding pow2_le_iff pow2_less_iff by (simp_all add: emin_def emax_def)

lemma quotient_rounded:
  assumes "plausible_size a" "plausible_size b"
  shows "\<exists>r. js_div (Fin a) (Fin b) = Fin r
    \<and> a / b * (1 - unit_roundoff) \<le> r \<and> r \<le> a / b * (1 + unit_roundoff)
    \<and> 2 powi (-201) \<le> r \<and> r \<le> 2 powi 201"
proof -
  have a: "2 powi (-100) \<le> a" "a \<le> 2 powi 100" and b: "2 powi (-100) \<le> b" "b \<le> 2 powi 100"
    using assms by (simp_all add: plausible_size_def)
  have bp: "0 < b" and ap: "0 < a"
    using a(1) b(1) by (meson less_le_trans zero_less_numeral zero_less_power_int)+
  have lo: "2 powi (-200) \<le> a / b"
  proof -
    have "(2::real) powi (-200) = 2 powi (-100) / 2 powi 100" by (simp add: power_int_diff[symmetric])
    also have "\<dots> \<le> a / b" using a(1) b(2) bp by (intro frac_le) simp_all
    finally show ?thesis .
  qed
  have hi: "a / b \<le> 2 powi 200"
  proof -
    have "a / b \<le> 2 powi 100 / 2 powi (-100)" using a(2) b(1) ap by (intro frac_le) simp_all
    also have "\<dots> = 2 powi 200" by (simp add: power_int_diff[symmetric])
    finally show ?thesis .
  qed
  have n1: "2 powi emin \<le> a / b"
  proof -
    have "(2::real) powi emin \<le> 2 powi (-200)" unfolding pow2_le_iff by (simp add: emin_def)
    then show ?thesis using lo by linarith
  qed
  have n2: "a / b < 2 powi emax"
  proof -
    have "(2::real) powi 200 < 2 powi emax" unfolding pow2_less_iff by (simp add: emax_def)
    then show ?thesis using hi by linarith
  qed
  obtain r where r: "round_binary64 (a / b) = Fin r" "a / b * (1 - unit_roundoff) \<le> r"
    "r \<le> a / b * (1 + unit_roundoff)"
    using round_binary64_error[OF n1 n2] by blast
  have u: "0 < unit_roundoff" "unit_roundoff \<le> 1/2"
    by (simp_all add: unit_roundoff_def mant_bits_def)
  have "2 powi (-201) = 2 powi (-200) * (1/2::real)" by (simp add: power_int_diff)
  also have "\<dots> \<le> a / b * (1 - unit_roundoff)"
    using u ap bp by (intro mult_mono[OF lo]) simp_all
  finally have r1: "2 powi (-201) \<le> r" using r(2) by linarith
  have "a / b * (1 + unit_roundoff) \<le> 2 powi 200 * 2"
    using hi u ap bp by (intro mult_mono) simp_all
  also have "\<dots> = (2::real) powi 201" by simp
  finally have r2: "r \<le> 2 powi 201" using r(3) by linarith
  show ?thesis using r r1 r2 bp by auto
qed

lemma product_rounded:
  assumes "plausible_size a" "2 powi (-201) \<le> s" "s \<le> 2 powi 201"
  shows "\<exists>p. js_mul (Fin a) (Fin s) = Fin p
    \<and> a * s * (1 - unit_roundoff) \<le> p \<and> p \<le> a * s * (1 + unit_roundoff)"
proof -
  have a: "2 powi (-100) \<le> a" "a \<le> 2 powi 100"
    using assms by (simp_all add: plausible_size_def)
  have ap: "0 < a"
    using a(1) by (meson less_le_trans zero_less_numeral zero_less_power_int)
  have sp: "0 < s"
    using assms(2) by (meson less_le_trans zero_less_numeral zero_less_power_int)
  have "(2::real) powi (-301) = 2 powi (-100) * 2 powi (-201)" by (simp add: power_int_add[symmetric])
  also have "\<dots> \<le> a * s" using a(1) assms(2) by (intro mult_mono) simp_all
  finally have lo: "2 powi (-301) \<le> a * s" .
  have "a * s \<le> 2 powi 100 * 2 powi 201" using a(2) assms(3) ap sp by (intro mult_mono) simp_all
  also have "\<dots> = (2::real) powi 301" by (simp add: power_int_add[symmetric])
  finally have hi: "a * s \<le> 2 powi 301" .
  have n1: "2 powi emin \<le> a * s"
  proof -
    have "(2::real) powi emin \<le> 2 powi (-301)" unfolding pow2_le_iff by (simp add: emin_def)
    then show ?thesis using lo by linarith
  qed
  have n2: "a * s < 2 powi emax"
  proof -
    have "(2::real) powi 301 < 2 powi emax" unfolding pow2_less_iff by (simp add: emax_def)
    then show ?thesis using hi by linarith
  qed
  show ?thesis using round_binary64_error[OF n1 n2] by simp
qed

theorem aspect_fit_bound:
  assumes "videoWidth v = JNum (Fin w)" "videoHeight v = JNum (Fin h')"
    and "rect_width (clientRect v) = Fin W" "rect_height (clientRect v) = Fin H"
    and "plausible_size w" "plausible_size h'" "plausible_size W" "plausible_size H"
  shows "\<exists>aw ah. actualWidth h v = Fin aw \<and> actualHeight h v = Fin ah
      \<and> aw \<le> W * (1 + unit_roundoff)\<^sup>2 \<and> ah \<le> H * (1 + unit_roundoff)\<^sup>2
      \<and> (W * (1 - unit_roundoff)\<^sup>2 \<le> aw \<or> H * (1 - unit_roundoff)\<^sup>2 \<le> ah)"
proof -
  let ?u = unit_roundoff
  have u: "0 < ?u" "?u < 1" by (rule unit_roundoff_bounds)+
  have wp: "0 < w" and hp: "0 < h'" and Wp: "0 < W" and Hp: "0 < H"
    using assms(5-8)
    by (auto simp: plausible_size_def intro: less_le_trans[OF zero_less_power_int])
  obtain r1 where r1: "js_div (Fin W) (Fin w) = Fin r1" "W / w * (1 - ?u) \<le> r1"
    "r1 \<le> W / w * (1 + ?u)" "2 powi (-201) \<le> r1" "r1 \<le> 2 powi 201"
    using quotient_rounded[OF assms(7,5)] by blast
  obtain r2 where r2: "js_div (Fin H) (Fin h') = Fin r2" "H / h' * (1 - ?u) \<le> r2"
    "r2 \<le> H / h' * (1 + ?u)" "2 powi (-201) \<le> r2" "r2 \<le> 2 powi 201"
    using quotient_rounded[OF assms(8,6)] by blast
  define s where "s = min r1 r2"
  have sc: "scale h v = Fin s"
    using assms(1-4) r1(1) r2(1) by (simp add: scale_def Math_min_Fin s_def del: js_div.simps)
  have sb: "2 powi (-201) \<le> s" "s \<le> 2 powi 201" "s \<le> r1" "s \<le> r2" "s = r1 \<or> s = r2"
    using r1(4,5) r2(4,5) by (auto simp: s_def min_def)
  have sp: "0 < s" using sb(1) by (meson less_le_trans zero_less_numeral zero_less_power_int)
  obtain aw where aw: "js_mul (Fin w) (Fin s) = Fin aw" "w * s * (1 - ?u) \<le> aw"
    "aw \<le> w * s * (1 + ?u)"
    using product_rounded[OF assms(5) sb(1,2)] by blast
  obtain ah where ah: "js_mul (Fin h') (Fin s) = Fin ah" "h' * s * (1 - ?u) \<le> ah"
    "ah \<le> h' * s * (1 + ?u)"
    using product_rounded[OF assms(6) sb(1,2)] by blast
  have AW: "actualWidth h v = Fin aw" and AH: "actualHeight h v = Fin ah"
    using assms(1,2) sc aw(1) ah(1)
    by (simp_all add: actualWidth_def actualHeight_def del: js_mul.simps)
  have wr1: "w * r1 \<le> W * (1 + ?u)" "W * (1 - ?u) \<le> w * r1"
  proof -
    have "w * r1 \<le> w * (W / w * (1 + ?u))" using r1(3) wp by (intro mult_left_mono) simp_all
    then show "w * r1 \<le> W * (1 + ?u)" using wp by simp
    have "w * (W / w * (1 - ?u)) \<le> w * r1" using r1(2) wp by (intro mult_left_mono) simp_all
    then show "W * (1 - ?u) \<le> w * r1" using wp by simp
  qed
  have hr2: "h' * r2 \<le> H * (1 + ?u)" "H * (1 - ?u) \<le> h' * r2"
  proof -
    have "h' * r2 \<le> h' * (H / h' * (1 + ?u))" using r2(3) hp by (intro mult_left_mono) simp_all
    then show "h' * r2 \<le> H * (1 + ?u)" using hp by simp
    have "h' * (H / h' * (1 - ?u)) \<le> h' * r2" using r2(2) hp by (intro mult_left_mono) simp_all
    then show "H * (1 - ?u) \<le> h' * r2" using hp by simp
  qed
  have up_w: "aw \<le> W * (1 + ?u)\<^sup>2"
  proof -
    have "w * s \<le> w * r1" using sb(3) wp by simp
    then have "w * s * (1 + ?u) \<le> W * (1 + ?u) * (1 + ?u)"
      using wr1(1) u by (intro mult_right_mono) simp_all
    then show ?thesis using aw(3) by (simp add: power2_eq_square algebra_simps)
  qed
  have up_h: "ah \<le> H * (1 + ?u)\<^sup>2"
  proof -
    have "h' * s \<le> h' * r2" using sb(4) hp by simp
    then have "h' * s * (1 + ?u) \<le> H * (1 + ?u) * (1 + ?u)"
      using hr2(1) u by (intro mult_right_mono) simp_all
    then show ?thesis using ah(3) by (simp add: power2_eq_square algebra_simps)
  qed
  have low: "W * (1 - ?u)\<^sup>2 \<le> aw \<or> H * (1 - ?u)\<^sup>2 \<le> ah"
  proof (cases "s = r1")
    case True
    have "W * (1 - ?u) * (1 - ?u) \<le> w * s * (1 - ?u)"
      using wr1(2) u True by (intro mult_right_mono) simp_all
    then show ?thesis using aw(2) by (simp add: power2_eq_square algebra_simps)
  next
    case False
    then have "s = r2" using sb(5) by simp
    then have "H * (1 - ?u) * (1 - ?u) \<le> h' * s * (1 - ?u)"
      using hr2(2) u by (intro mult_right_mono) simp_all
    then show ?thesis using ah(2) by (simp add: power2_eq_square algebra_simps)
  qed
  show ?thesis using AW AH up_w up_h low by blast
qed

text \<open>
  C3 (as amended). For a video whose native size and displayed rectangle are between
  \<open>2 ^ -100\<close> and \<open>2 ^ 100\<close> in each dimension, the fitted size exceeds the
  rectangle by no more than the rounding of one quotient and one product:
  \<open>actualWidth\<close> is at most the displayed width times \<open>(1 + 2 ^ -53)\<^sup>2\<close>,
  \<open>actualHeight\<close> at most the displayed height times that factor, and in one of the two
  dimensions the fitted size is at least the displayed size times \<open>(1 - 2 ^ -53)\<^sup>2\<close>.
  Whenever dividing a displayed dimension by the native one and multiplying back gives
  the displayed dimension again, in both dimensions, the fitted size is within the
  rectangle and equal to it in one dimension.
\<close>

theorem aspect_fit_up_to_rounding:
  assumes "videoWidth v = JNum (Fin w)" "videoHeight v = JNum (Fin h')"
    and "rect_width (clientRect v) = Fin W" "rect_height (clientRect v) = Fin H"
    and "plausible_size w" "plausible_size h'" "plausible_size W" "plausible_size H"
  shows "\<exists>aw ah. actualWidth h v = Fin aw \<and> actualHeight h v = Fin ah
      \<and> aw \<le> W * (1 + unit_roundoff)\<^sup>2 \<and> ah \<le> H * (1 + unit_roundoff)\<^sup>2
      \<and> (W * (1 - unit_roundoff)\<^sup>2 \<le> aw \<or> H * (1 - unit_roundoff)\<^sup>2 \<le> ah)
      \<and> (js_mul (Fin w) (js_div (Fin W) (Fin w)) = Fin W
            \<and> js_mul (Fin h') (js_div (Fin H) (Fin h')) = Fin H
          \<longrightarrow> aw \<le> W \<and> ah \<le> H \<and> (aw = W \<or> ah = H))"
proof -
  have pos: "0 < w" "0 < h'" "0 < W" "0 < H"
    using assms(5-8)
    by (auto simp: plausible_size_def intro: less_le_trans[OF zero_less_power_int])
  obtain aw ah where b: "actualWidth h v = Fin aw" "actualHeight h v = Fin ah"
    "aw \<le> W * (1 + unit_roundoff)\<^sup>2" "ah \<le> H * (1 + unit_roundoff)\<^sup>2"
    "W * (1 - unit_roundoff)\<^sup>2 \<le> aw \<or> H * (1 - unit_roundoff)\<^sup>2 \<le> ah"
    using aspect_fit_bound[OF assms] by blast
  have "js_mul (Fin w) (js_div (Fin W) (Fin w)) = Fin W
            \<and> js_mul (Fin h') (js_div (Fin H) (Fin h')) = Fin H
          \<longrightarrow> js_le (actualWidth h v) (Fin W) \<and> js_le (actualHeight h v) (Fin H)
              \<and> (actualWidth h v = Fin W \<or> actualHeight h v = Fin H)"
    using aspect_fit_round_trip[OF assms(1-4) pos] by blast
  then have "js_mul (Fin w) (js_div (Fin W) (Fin w)) = Fin W
            \<and> js_mul (Fin h') (js_div (Fin H) (Fin h')) = Fin H
          \<longrightarrow> aw \<le> W \<and> ah \<le> H \<and> (aw = W \<or> ah = H)"
    unfolding b by simp
  then show ?thesis using b by blast
qed

lemma rt_600: "round_binary64 (337769972052787215 / 562949953421312) = Fin (600)"
  using round_binary64_eqI[of "337769972052787215 / 562949953421312" "9" "5277655813324800"]
  by (simp add: emin_def emax_def mant_bits_def)

theorem aspect_fit_up_to_rounding_witness:
  "\<exists>aw ah. actualWidth example_host example_video = Fin aw
     \<and> actualHeight example_host example_video = Fin ah
     \<and> aw \<le> 800 \<and> ah \<le> 600 \<and> aw = 800"
proof -
  have p: "plausible_size 1920" "plausible_size 1080" "plausible_size 800" "plausible_size 600"
    by (simp_all add: plausible_size_def)
  have rt: "js_mul (Fin 1920) (js_div (Fin 800) (Fin 1920)) = Fin 800"
    "js_mul (Fin 1080) (js_div (Fin 600) (Fin 1080)) = Fin 600"
    by (simp_all add: q_800_1920 aw_800 q_600_1080 rt_600)
  have v: "videoWidth example_video = JNum (Fin 1920)" "videoHeight example_video = JNum (Fin 1080)"
    "rect_width (clientRect example_video) = Fin 800" "rect_height (clientRect example_video) = Fin 600"
    by (simp_all add: example_video_def)
  from aspect_fit_up_to_rounding[OF v p, of example_host] rt
  show ?thesis using example_actualWidth[of example_host] by auto
qed

theorem aspect_fit_counterexample:
  "\<not> (js_le (actualWidth example_host video_1000_800) (Fin 1000)
      \<and> js_le (actualHeight example_host video_1000_800) (Fin 800)
      \<and> (actualWidth example_host video_1000_800 = Fin 1000
          \<or> actualHeight example_host video_1000_800 = Fin 800))"
  by (simp add: actualWidth_1000_800 actualHeight_1000_800)


section \<open>The callbacks at the example inputs\<close>

lemma r_150: "round_binary64 (150) = Fin (150)"
  using round_binary64_eqI[of "150" "7" "5277655813324800"]
  by (simp add: emin_def emax_def mant_bits_def)

lemma r_75: "round_binary64 (75) = Fin (75)"
  using round_binary64_eqI[of "75" "6" "5277655813324800"]
  by (simp add: emin_def emax_def mant_bits_def)

lemma r_5_96: "round_binary64 (5 / 96) = Fin (7505999378950827 / 144115188075855872)"
  using round_binary64_eqI[of "5 / 96" "-5" "7505999378950827"]
  by (simp add: emin_def emax_def mant_bits_def)

lemma r_p1: "round_binary64 (187649984473770675 / 4503599627370496) = Fin (2932031007402667 / 70368744177664)"
  using round_binary64_eqI[of "187649984473770675 / 4503599627370496" "5" "5864062014805334"]
  by (simp add: emin_def emax_def mant_bits_def)

lemma r_x: "round_binary64 (2932031007402667 / 70368744177664) = Fin (2932031007402667 / 70368744177664)"
  using round_binary64_eqI[of "2932031007402667 / 70368744177664" "5" "5864062014805334"]
  by (simp add: emin_def emax_def mant_bits_def)

lemma r_5_54: "round_binary64 (5 / 54) = Fin (3335999723978145 / 36028797018963968)"
  using round_binary64_eqI[of "5 / 54" "-4" "6671999447956290"]
  by (simp add: emin_def emax_def mant_bits_def)

lemma r_p2: "round_binary64 (750599937895082625 / 18014398509481984) = Fin (5864062014805333 / 140737488355328)"
  using round_binary64_eqI[of "750599937895082625 / 18014398509481984" "5" "5864062014805333"]
  by (simp add: emin_def emax_def mant_bits_def)

lemma r_y: "round_binary64 (16419373641454933 / 140737488355328) = Fin (4104843410363733 / 35184372088832)"
  using round_binary64_tieI[of "16419373641454933 / 140737488355328" "6" "8209686820727466"]
  by (simp add: emin_def emax_def mant_bits_def)

lemma r_200: "round_binary64 (200) = Fin (200)"
  using round_binary64_eqI[of "200" "7" "7036874417766400"]
  by (simp add: emin_def emax_def mant_bits_def)

lemma r_5_48: "round_binary64 (5 / 48) = Fin (7505999378950827 / 72057594037927936)"
  using round_binary64_eqI[of "5 / 48" "-4" "7505999378950827"]
  by (simp add: emin_def emax_def mant_bits_def)

lemma r_w: "round_binary64 (187649984473770675 / 2251799813685248) = Fin (2932031007402667 / 35184372088832)"
  using round_binary64_eqI[of "187649984473770675 / 2251799813685248" "6" "5864062014805334"]
  by (simp add: emin_def emax_def mant_bits_def)

lemma r_100: "round_binary64 (100) = Fin (100)"
  using round_binary64_eqI[of "100" "6" "7036874417766400"]
  by (simp add: emin_def emax_def mant_bits_def)

lemma lit_0_3: "round_binary64 (3 / 10) = Fin (5404319552844595 / 18014398509481984)"
  using round_binary64_eqI[of "3 / 10" "-2" "5404319552844595"]
  by (simp add: emin_def emax_def mant_bits_def)

lemma lit_0_7: "round_binary64 (7 / 10) = Fin (3152519739159347 / 4503599627370496)"
  using round_binary64_eqI[of "7 / 10" "-1" "6305039478318694"]
  by (simp add: emin_def emax_def mant_bits_def)

lemma lit_0_3_exact: "round_binary64 (5404319552844595 / 18014398509481984) = Fin (5404319552844595 / 18014398509481984)"
  using round_binary64_eqI[of "5404319552844595 / 18014398509481984" "-2" "5404319552844595"]
  by (simp add: emin_def emax_def mant_bits_def)

lemma lit_sum: "round_binary64 (18014398509481983 / 18014398509481984) = Fin (1)"
  using round_binary64_tieI[of "18014398509481983 / 18014398509481984" "-1" "9007199254740991"]
  by (simp add: emin_def emax_def mant_bits_def)

lemma example_xOffset: "xOffset h example_video = Fin 0"
  by (simp add: xOffset_def example_actualWidth js_sub_def)
     (simp add: example_video_def round_binary64_0)

lemma example_yOffset: "yOffset h example_video = Fin 75"
  by (simp add: yOffset_def example_actualHeight js_sub_def)
     (simp add: example_video_def r_150 r_75)

lemma example_spec_x:
  "spec_x h example_video [JNum (Fin 100), JNum (Fin 100), JNum (Fin 300), JNum (Fin 200)]
     = Fin (2932031007402667 / 70368744177664)"
  by (simp add: spec_x_def example_xOffset example_actualWidth component_def)
     (simp add: example_video_def r_5_96 r_p1 r_x)

lemma example_spec_y:
  "spec_y h example_video [JNum (Fin 100), JNum (Fin 100), JNum (Fin 300), JNum (Fin 200)]
     = Fin (4104843410363733 / 35184372088832)"
  by (simp add: spec_y_def example_yOffset example_actualHeight component_def)
     (simp add: example_video_def r_5_54 r_p2 r_y)

lemma example_spec_width:
  "spec_width h example_video [JNum (Fin 100), JNum (Fin 100), JNum (Fin 300), JNum (Fin 200)]
     = Fin (2932031007402667 / 35184372088832)"
  by (simp add: spec_width_def example_actualWidth component_def js_sub_def)
     (simp add: example_video_def r_200 r_5_48 r_w)

lemma example_spec_height:
  "spec_height h example_video [JNum (Fin 100), JNum (Fin 100), JNum (Fin 300), JNum (Fin 200)]
     = Fin (5864062014805333 / 140737488355328)"
  by (simp add: spec_height_def example_actualHeight component_def js_sub_def)
     (simp add: example_video_def r_100 r_5_54 r_p2)

lemma malformed_spec_x:
  "spec_x h example_video [JNum (Fin 100), JStr ''abc'', JNum (Fin 300)]
     = Fin (2932031007402667 / 70368744177664)"
  by (simp add: spec_x_def example_xOffset example_actualWidth component_def)
     (simp add: example_video_def r_5_96 r_p1 r_x)

lemma malformed_spec_width:
  "spec_width h example_video [JNum (Fin 100), JStr ''abc'', JNum (Fin 300)]
     = Fin (2932031007402667 / 35184372088832)"
  by (simp add: spec_width_def example_actualWidth component_def js_sub_def)
     (simp add: example_video_def r_200 r_5_48 r_w)

lemma inverted_spec_width:
  "spec_width h example_video [JNum (Fin 300), JNum (Fin 100), JNum (Fin 100), JNum (Fin 200)]
     = Fin (- (2932031007402667 / 35184372088832))"
  by (simp add: spec_width_def example_actualWidth component_def js_sub_def)
     (simp add: example_video_def round_binary64_neg r_200 r_5_48 r_w)

lemma rect_x_spec: "rect_x h v cs = (if isFinite (spec_x h v cs) then spec_x h v cs else Fin 0)"
  by (simp add: rect_x_def spec_x_def Let_def)

lemma rect_y_spec: "rect_y h v cs = (if isFinite (spec_y h v cs) then spec_y h v cs else Fin 0)"
  by (simp add: rect_y_def spec_y_def Let_def)

lemma rect_width_spec:
  "rect_width' h v cs = (if isFinite (spec_width h v cs) \<and> js_gt (spec_width h v cs) (Fin 0)
                         then spec_width h v cs else Fin 0)"
  by (simp add: rect_width'_def spec_width_def Let_def)

lemma rect_height_spec:
  "rect_height' h v cs = (if isFinite (spec_height h v cs) \<and> js_gt (spec_height h v cs) (Fin 0)
                          then spec_height h v cs else Fin 0)"
  by (simp add: rect_height'_def spec_height_def Let_def)

section \<open>Guards of the callbacks\<close>

lemma js_add_NaN [simp]: "js_add a NaN = NaN"
  by (cases a) simp_all

lemma js_mul_NaN [simp]: "js_mul a NaN = NaN"
  by (cases a) simp_all

lemma js_div_NaN [simp]: "js_div a NaN = NaN"
  by (cases a) simp_all

lemma isFinite_iff: "isFinite n \<longleftrightarrow> (\<exists>r. n = Fin r)"
  by (cases n) simp_all

lemma all_shapes_ok: "(\<And>d. d \<in> set ds \<Longrightarrow> bbox d \<noteq> NoBBox) \<Longrightarrow> all_shapes (rect_shape h v) ds = Inr ()"
proof (induction ds)
  case Nil
  then show ?case by simp
next
  case (Cons d ds)
  then have "bbox d \<noteq> NoBBox" by simp
  then obtain cs where "bbox d = BBox cs" by (cases "bbox d") simp_all
  then show ?case using Cons by (simp add: rect_shape_def)
qed

lemma rect_shape_tolerant:
  assumes "bbox d = BBox cs"
  shows "\<exists>b. rect_shape h v d = Inr (Box b)
     \<and> isFinite (box_x b) \<and> isFinite (box_y b) \<and> isFinite (box_width b) \<and> isFinite (box_height b)
     \<and> js_le (Fin 0) (box_width b) \<and> js_le (Fin 0) (box_height b)
     \<and> (\<not> isFinite (spec_x h v cs) \<longrightarrow> box_x b = Fin 0)
     \<and> (\<not> isFinite (spec_y h v cs) \<longrightarrow> box_y b = Fin 0)
     \<and> (\<not> isFinite (spec_width h v cs) \<longrightarrow> box_width b = Fin 0)
     \<and> (\<not> isFinite (spec_height h v cs) \<longrightarrow> box_height b = Fin 0)
     \<and> (ToNumber h (component cs 0) = NaN \<longrightarrow> box_x b = Fin 0 \<and> box_width b = Fin 0)
     \<and> (ToNumber h (component cs 1) = NaN \<longrightarrow> box_y b = Fin 0 \<and> box_height b = Fin 0)
     \<and> (ToNumber h (component cs 2) = NaN \<longrightarrow> box_width b = Fin 0)
     \<and> (ToNumber h (component cs 3) = NaN \<longrightarrow> box_height b = Fin 0)
     \<and> (\<forall>ds. (\<forall>d' \<in> set ds. bbox d' \<noteq> NoBBox) \<longrightarrow> all_shapes (rect_shape h v) ds = Inr ())"
proof -
  have w: "js_le (Fin 0) (rect_width' h v cs)"
    by (cases "spec_width h v cs") (simp_all add: rect_width_spec js_gt_def)
  have ht: "js_le (Fin 0) (rect_height' h v cs)"
    by (cases "spec_height h v cs") (simp_all add: rect_height_spec js_gt_def)
  have n0: "ToNumber h (component cs 0) = NaN \<Longrightarrow> rect_x h v cs = Fin 0 \<and> rect_width' h v cs = Fin 0"
    by (simp add: rect_x_def rect_width'_def js_sub_def Let_def)
  have n1: "ToNumber h (component cs 1) = NaN \<Longrightarrow> rect_y h v cs = Fin 0 \<and> rect_height' h v cs = Fin 0"
    by (simp add: rect_y_def rect_height'_def js_sub_def Let_def)
  have n2: "ToNumber h (component cs 2) = NaN \<Longrightarrow> rect_width' h v cs = Fin 0"
    by (simp add: rect_width'_def js_sub_def Let_def)
  have n3: "ToNumber h (component cs 3) = NaN \<Longrightarrow> rect_height' h v cs = Fin 0"
    by (simp add: rect_height'_def js_sub_def Let_def)
  have fin: "isFinite (rect_x h v cs)" "isFinite (rect_y h v cs)"
    "isFinite (rect_width' h v cs)" "isFinite (rect_height' h v cs)"
    by (simp_all add: rect_x_def rect_y_def rect_width'_def rect_height'_def Let_def)
  have cl: "\<not> isFinite (spec_x h v cs) \<Longrightarrow> rect_x h v cs = Fin 0"
    "\<not> isFinite (spec_y h v cs) \<Longrightarrow> rect_y h v cs = Fin 0"
    "\<not> isFinite (spec_width h v cs) \<Longrightarrow> rect_width' h v cs = Fin 0"
    "\<not> isFinite (spec_height h v cs) \<Longrightarrow> rect_height' h v cs = Fin 0"
    by (simp_all add: rect_x_spec rect_y_spec rect_width_spec rect_height_spec)
  have all: "\<forall>ds. (\<forall>d' \<in> set ds. bbox d' \<noteq> NoBBox) \<longrightarrow> all_shapes (rect_shape h v) ds = Inr ()"
    using all_shapes_ok by blast
  show ?thesis
    using assms w ht n0 n1 n2 n3 fin cl all by (simp add: rect_shape_def)
qed

lemma opacity_bounds:
  assumes "confidence d = JNum (Fin c)" "0 \<le> c" "c \<le> 1"
  shows "opacity h d = Math_min (Fin 1) (js_add (Fin c) (round_binary64 (3/10)))
     \<and> js_le (round_binary64 (3/10)) (opacity h d) \<and> js_le (opacity h d) (Fin 1)
     \<and> (c = 0 \<longrightarrow> opacity h d = round_binary64 (3/10))
     \<and> (js_le (round_binary64 (7/10)) (Fin c) \<longrightarrow> opacity h d = Fin 1)"
proof -
  let ?l = "5404319552844595 / 18014398509481984 :: real"
  have op: "opacity h d = Math_min (Fin 1) (round_binary64 (c + ?l))"
    using assms(1) by (simp add: opacity_def lit_0_3)
  have "?l \<le> c + ?l" using assms(2) by simp
  from round_binary64_mono[OF this]
  have lo: "js_le (Fin ?l) (round_binary64 (c + ?l))" by (simp add: lit_0_3_exact)
  then obtain s where s: "round_binary64 (c + ?l) = Fin s \<or> round_binary64 (c + ?l) = PInf"
    by (cases "round_binary64 (c + ?l)") simp_all
  have 1: "js_le (Fin ?l) (opacity h d)"
    using lo by (cases "round_binary64 (c + ?l)") (auto simp: op Math_min_def)
  have 2: "js_le (opacity h d) (Fin 1)"
    using lo by (cases "round_binary64 (c + ?l)") (auto simp: op Math_min_def)
  have 3: "c = 0 \<Longrightarrow> opacity h d = Fin ?l"
    by (simp add: op lit_0_3_exact Math_min_def)
  have 4: "opacity h d = Fin 1" if "js_le (round_binary64 (7/10)) (Fin c)"
  proof -
    have "3152519739159347 / 4503599627370496 \<le> c" using that by (simp add: lit_0_7)
    then have "18014398509481983 / 18014398509481984 \<le> c + ?l" by simp
    from round_binary64_mono[OF this]
    have "js_le (Fin 1) (round_binary64 (c + ?l))" by (simp add: lit_sum)
    then show ?thesis by (cases "round_binary64 (c + ?l)") (auto simp: op Math_min_def)
  qed
  show ?thesis using op 1 2 3 4 assms(1) by (simp add: lit_0_3 opacity_def)
qed

section \<open>The layer after a join\<close>

lemma nodeByKeyValue_Some:
  "nodeByKeyValue h ns k = Some i \<Longrightarrow> \<exists>n \<in> set ns. node_id n = i \<and> key h (datum n) = k"
  by (induction ns) (auto split: if_splits)

lemma nodeByKeyValue_None:
  "nodeByKeyValue h ns k = None \<longleftrightarrow> k \<notin> (\<lambda>n. key h (datum n)) ` set ns"
  by (induction ns) auto

lemma nodeByKeyValue_inj:
  assumes "distinct (map node_id ns)"
    and "nodeByKeyValue h ns k = Some i" "nodeByKeyValue h ns k' = Some i"
  shows "k = k'"
proof -
  obtain n where n: "n \<in> set ns" "node_id n = i" "key h (datum n) = k"
    using nodeByKeyValue_Some[OF assms(2)] by blast
  obtain n' where n': "n' \<in> set ns" "node_id n' = i" "key h (datum n') = k'"
    using nodeByKeyValue_Some[OF assms(3)] by blast
  have "inj_on node_id (set ns)" using assms(1) by (simp add: distinct_map)
  then have "n = n'" using n(1,2) n'(1,2) by (auto dest: inj_onD)
  then show ?thesis using n(3) n'(3) by simp
qed

lemma length_bind: "length (bind h m ds) = length ds"
  by (induction ds arbitrary: m) (auto split: option.splits)

lemma set_updates: "i \<in> set (updates bs) \<longleftrightarrow> Inl i \<in> set bs"
  by (induction bs rule: updates.induct) auto

lemma ran_remove: "i \<in> ran (m(k := None)) \<Longrightarrow> i \<in> ran m"
  by (auto simp: ran_def split: if_splits)

lemma bind_updates_ran: "i \<in> set (updates (bind h m ds)) \<Longrightarrow> i \<in> ran m"
proof (induction ds arbitrary: m)
  case Nil
  then show ?case by simp
next
  case (Cons d ds)
  show ?case
  proof (cases "m (key h d)")
    case None
    then show ?thesis using Cons by simp
  next
    case (Some j)
    then have "i = j \<or> i \<in> set (updates (bind h (m(key h d := None)) ds))"
      using Cons.prems by simp
    then show ?thesis
    proof
      assume "i = j" then show ?thesis using Some by (auto simp: ran_def)
    next
      assume "i \<in> set (updates (bind h (m(key h d := None)) ds))"
      then have "i \<in> ran (m(key h d := None))" by (rule Cons.IH)
      then show ?thesis by (rule ran_remove)
    qed
  qed
qed

lemma bind_updates_distinct:
  "\<forall>k k' i. m k = Some i \<longrightarrow> m k' = Some i \<longrightarrow> k = k' \<Longrightarrow> distinct (updates (bind h m ds))"
proof (induction ds arbitrary: m)
  case Nil
  then show ?case by simp
next
  case (Cons d ds)
  show ?case
  proof (cases "m (key h d)")
    case None
    then show ?thesis using Cons by simp
  next
    case (Some i)
    let ?m = "m(key h d := None)"
    have inj: "\<forall>k k' j. ?m k = Some j \<longrightarrow> ?m k' = Some j \<longrightarrow> k = k'"
      using Cons.prems by (auto split: if_splits)
    have "i \<notin> ran ?m"
    proof
      assume "i \<in> ran ?m"
      then obtain k where "?m k = Some i" by (auto simp: ran_def)
      then have "k \<noteq> key h d" "m k = Some i" by (auto split: if_splits)
      then show False using Cons.prems Some by blast
    qed
    then have ni: "i \<notin> set (updates (bind h ?m ds))" using bind_updates_ran[of i h ?m ds] by blast
    have dis: "distinct (updates (bind h ?m ds))" by (rule Cons.IH[OF inj])
    show ?thesis using Some ni dis by simp
  qed
qed

lemma bind_distinct_keys:
  assumes "distinct (map (key h) ds)"
  shows "bind h m ds = map (\<lambda>d. case m (key h d) of Some i \<Rightarrow> Inl i | None \<Rightarrow> Inr ()) ds"
  using assms
proof (induction ds arbitrary: m)
  case Nil
  then show ?case by simp
next
  case (Cons d ds)
  have "key h d \<notin> set (map (key h) ds)" using Cons.prems by simp
  then have rest: "\<forall>d' \<in> set ds. key h d' \<noteq> key h d" by (metis image_eqI set_map)
  have d: "distinct (map (key h) ds)" using Cons.prems by simp
  show ?case
  proof (cases "m (key h d)")
    case None
    then show ?thesis using Cons.IH[OF d, of m] by simp
  next
    case (Some i)
    have eq: "map (\<lambda>d'. case (m(key h d := None)) (key h d') of Some i \<Rightarrow> Inl i | None \<Rightarrow> Inr ()) ds
        = map (\<lambda>d'. case m (key h d') of Some i \<Rightarrow> Inl i | None \<Rightarrow> Inr ()) ds"
      using rest by (intro map_cong) auto
    have "bind h (m(key h d := None)) ds
        = map (\<lambda>d'. case (m(key h d := None)) (key h d') of Some i \<Rightarrow> Inl i | None \<Rightarrow> Inr ()) ds"
      by (rule Cons.IH[OF d])
    then have "bind h (m(key h d := None)) ds
        = map (\<lambda>d'. case m (key h d') of Some i \<Rightarrow> Inl i | None \<Rightarrow> Inr ()) ds"
      using eq by (rule trans)
    then show ?thesis using Some by simp
  qed
qed

section \<open>Entering nodes\<close>

lemma mset_insertBefore: "mset (insertBefore n x cs) = add_mset n (mset cs)"
proof (cases x)
  case None
  then show ?thesis by simp
next
  case (Some i)
  show ?thesis unfolding Some by (induction cs) auto
qed

lemma filter_insertBefore: "\<not> P n \<Longrightarrow> filter P (insertBefore n x cs) = filter P cs"
proof (cases x)
  case None
  assume "\<not> P n" then show ?thesis using None by simp
next
  case (Some i)
  assume "\<not> P n" then show ?thesis unfolding Some by (induction cs) auto
qed

lemma mset_upt_Suc: "a < b \<Longrightarrow> mset_set {a..<b} = add_mset a (mset_set {Suc a..<b})"
  by (simp flip: mset_upt add: upt_conv_Cons)

lemma append_enter_props:
  assumes "length bs = length ds" "append_enter t bs ds cs fresh = (merged, cs2, fresh')"
  shows "map snd merged = ds
    \<and> mset (map fst merged) = mset (updates bs) + mset [fresh..<fresh']
    \<and> fresh \<le> fresh'
    \<and> mset (map node_id cs2) = mset (map node_id cs) + mset [fresh..<fresh']
    \<and> mset (map node_id (tagged t cs2)) = mset (map node_id (tagged t cs)) + mset [fresh..<fresh']
    \<and> filter (\<lambda>n. node_tag n \<noteq> t) cs2 = filter (\<lambda>n. node_tag n \<noteq> t) cs"
  using assms
proof (induction bs ds arbitrary: cs fresh merged cs2 fresh' rule: list_induct2)
  case Nil
  then show ?case by simp
next
  case (Cons b bs d ds)
  show ?case
  proof (cases b)
    case (Inl i)
    obtain merged0 where r: "append_enter t bs ds cs fresh = (merged0, cs2, fresh')"
      and m: "merged = (i, d) # merged0"
      using Cons.prems Inl by (auto split: prod.splits)
    from Cons.IH[OF r] show ?thesis using m Inl by simp
  next
    case (Inr u)
    let ?n = "\<lparr>node_id = fresh, node_tag = t, datum = d, shape = Blank\<rparr>"
    let ?cs = "insertBefore ?n (next_update bs) cs"
    obtain merged0 where r: "append_enter t bs ds ?cs (Suc fresh) = (merged0, cs2, fresh')"
      and m: "merged = (fresh, d) # merged0"
      using Cons.prems Inr by (auto split: prod.splits)
    note IH = Cons.IH[OF r]
    have lt: "fresh < fresh'" using IH by simp
    have a: "mset (map node_id ?cs) = add_mset fresh (mset (map node_id cs))"
      using mset_insertBefore[of ?n "next_update bs" cs]
      by (metis (no_types, lifting) image_mset_add_mset mset_map node.select_convs(1))
    have b: "mset (tagged t ?cs) = add_mset ?n (mset (tagged t cs))"
      using mset_insertBefore[of ?n "next_update bs" cs] by (simp add: tagged_def)
    have b': "mset (map node_id (tagged t ?cs)) = add_mset fresh (mset (map node_id (tagged t cs)))"
      using b by (metis (no_types, lifting) image_mset_add_mset mset_map node.select_convs(1))
    have c: "filter (\<lambda>n. node_tag n \<noteq> t) ?cs = filter (\<lambda>n. node_tag n \<noteq> t) cs"
      by (rule filter_insertBefore) simp
    show ?thesis using IH m Inr a b' c by (simp add: mset_upt_Suc[OF lt])
  qed
qed

lemma append_enter_zip:
  assumes "length bs = length ds" "append_enter t bs ds cs fresh = (merged, cs2, fresh')"
    and "(Inl i, d) \<in> set (zip bs ds)"
  shows "(i, d) \<in> set merged"
  using assms
proof (induction bs ds arbitrary: cs fresh merged cs2 fresh' rule: list_induct2)
  case Nil
  then show ?case by simp
next
  case (Cons b bs d' ds)
  show ?case
  proof (cases b)
    case (Inl j)
    obtain merged0 where r: "append_enter t bs ds cs fresh = (merged0, cs2, fresh')"
      and m: "merged = (j, d') # merged0"
      using Cons.prems Inl by (auto split: prod.splits)
    show ?thesis using Cons.IH[OF r] Cons.prems(2) m Inl by auto
  next
    case (Inr u)
    let ?cs = "insertBefore \<lparr>node_id = fresh, node_tag = t, datum = d', shape = Blank\<rparr> (next_update bs) cs"
    obtain merged0 where r: "append_enter t bs ds ?cs (Suc fresh) = (merged0, cs2, fresh')"
      and m: "merged = (fresh, d') # merged0"
      using Cons.prems Inr by (auto split: prod.splits)
    show ?thesis using Cons.IH[OF r] Cons.prems(2) m Inr by auto
  qed
qed

lemma set_attrs_ids: "map node_id (set_attrs render merged cs) = map node_id cs"
  by (induction cs) (auto simp: set_attrs_def split: option.splits)

lemma set_attrs_tagged: "tagged t (set_attrs render merged cs) = set_attrs render merged (tagged t cs)"
  by (induction cs) (auto simp: set_attrs_def tagged_def split: option.splits)

lemma set_attrs_others:
  assumes "\<And>c. c \<in> set cs \<Longrightarrow> node_id c \<notin> fst ` set merged"
  shows "set_attrs render merged cs = cs"
proof -
  have "\<And>c. c \<in> set cs \<Longrightarrow> map_of merged (node_id c) = None"
    using assms by (simp add: map_of_eq_None_iff)
  then show ?thesis by (simp add: set_attrs_def map_idI)
qed

lemma map_of_distinct_fst:
  "distinct (map fst xs) \<Longrightarrow> map (\<lambda>i. map_of xs i) (map fst xs) = map (\<lambda>p. Some (snd p)) xs"
  by (induction xs) (auto simp: image_iff intro!: map_cong)

lemma distinct_filter_mset:
  assumes "distinct xs" "distinct ys" "set ys \<subseteq> set xs"
  shows "mset (filter (\<lambda>x. x \<in> set ys) xs) = mset ys"
proof -
  have "distinct (filter (\<lambda>x. x \<in> set ys) xs)" using assms(1) by simp
  moreover have "set (filter (\<lambda>x. x \<in> set ys) xs) = set ys" using assms(3) by auto
  ultimately show ?thesis using assms(2) by (metis set_eq_iff_mset_eq_distinct)
qed

text \<open>What the join leaves in the layer.\<close>

lemma join_props:
  assumes wf: "wf_layer cs fresh" and j: "join h t render ds (cs, fresh) = (cs', fresh')"
  shows "wf_layer cs' fresh'"
    and "filter (\<lambda>n. node_tag n \<noteq> t) cs' = filter (\<lambda>n. node_tag n \<noteq> t) cs"
    and "image_mset (\<lambda>n. (datum n, shape n)) (mset (tagged t cs'))
          = image_mset (\<lambda>d. (d, render d)) (mset ds)"
    and "fresh \<le> fresh'"
proof -
  define sel where "sel = tagged t cs"
  define bound where "bound = bind h (nodeByKeyValue h sel) ds"
  define exit where "exit = filter (\<lambda>n. Inl (node_id n) \<notin> set bound) sel"
  define cs1 where "cs1 = filter (\<lambda>n. node_id n \<notin> set (map node_id exit)) cs"
  obtain merged cs2 where ae: "append_enter t bound ds cs1 fresh = (merged, cs2, fresh')"
    and cs': "cs' = set_attrs render merged cs2"
    using j by (auto simp: join_def Let_def sel_def bound_def exit_def cs1_def tagged_def
        split: prod.splits)
  have dist: "distinct (map node_id cs)" and lt: "\<And>n. n \<in> set cs \<Longrightarrow> node_id n < fresh"
    using wf by (auto simp: wf_layer_def list_all_iff)
  have inj: "inj_on node_id (set cs)" using dist by (simp add: distinct_map)
  have dsel: "distinct (map node_id sel)"
    unfolding sel_def tagged_def using dist by (rule distinct_map_filter)
  have len: "length bound = length ds" by (simp add: bound_def length_bind)
  have F1: "distinct (updates bound)"
    unfolding bound_def
    by (rule bind_updates_distinct) (use nodeByKeyValue_inj[OF dsel] in blast)
  have F2: "set (updates bound) \<subseteq> node_id ` set sel"
  proof
    fix i assume "i \<in> set (updates bound)"
    then have "i \<in> ran (nodeByKeyValue h sel)" unfolding bound_def by (rule bind_updates_ran)
    then obtain k where "nodeByKeyValue h sel k = Some i" by (auto simp: ran_def)
    from nodeByKeyValue_Some[OF this] show "i \<in> node_id ` set sel" by auto
  qed
  have F3: "cs1 = filter (\<lambda>n. node_tag n \<noteq> t \<or> node_id n \<in> set (updates bound)) cs"
    unfolding cs1_def
  proof (rule filter_cong[OF refl])
    fix n assume n: "n \<in> set cs"
    have "node_id n \<in> set (map node_id exit) \<longleftrightarrow> n \<in> set exit"
    proof
      assume "node_id n \<in> set (map node_id exit)"
      then obtain e where e: "e \<in> set exit" "node_id e = node_id n" by auto
      then have "e \<in> set cs" by (simp add: exit_def sel_def tagged_def)
      then have "e = n" using inj n e(2) by (auto dest: inj_onD)
      then show "n \<in> set exit" using e(1) by simp
    qed simp
    then show "(node_id n \<notin> set (map node_id exit))
        = (node_tag n \<noteq> t \<or> node_id n \<in> set (updates bound))"
      using n by (auto simp: exit_def sel_def tagged_def set_updates)
  qed
  have F4: "mset (map node_id (tagged t cs1)) = mset (updates bound)"
  proof -
    have "tagged t cs1 = filter (\<lambda>n. node_id n \<in> set (updates bound)) sel"
      unfolding F3 sel_def tagged_def by (auto intro: filter_cong)
    then have "map node_id (tagged t cs1)
        = filter (\<lambda>i. i \<in> set (updates bound)) (map node_id sel)"
      by (simp add: filter_map comp_def)
    then show ?thesis using distinct_filter_mset[OF dsel F1] F2 by simp
  qed
  have F5: "filter (\<lambda>n. node_tag n \<noteq> t) cs1 = filter (\<lambda>n. node_tag n \<noteq> t) cs"
    unfolding F3 by (auto intro: filter_cong)
  note P = append_enter_props[OF len ae]
  have snd: "map snd merged = ds" using P by simp
  have fstm: "mset (map fst merged) = mset (updates bound) + mset [fresh..<fresh']" using P by simp
  have le: "fresh \<le> fresh'" using P by simp
  have ids2: "mset (map node_id cs2) = mset (map node_id cs1) + mset [fresh..<fresh']"
    using P by simp
  have tids2: "mset (map node_id (tagged t cs2)) = mset (map fst merged)"
    using P F4 by simp
  have oth2: "filter (\<lambda>n. node_tag n \<noteq> t) cs2 = filter (\<lambda>n. node_tag n \<noteq> t) cs"
    using P F5 by simp
  have d1: "distinct (map node_id cs1)" "\<forall>n \<in> set cs1. node_id n < fresh"
    unfolding cs1_def using dist lt by (auto simp: distinct_map_filter)
  have "distinct (map node_id cs1 @ [fresh..<fresh'])" using d1 by fastforce
  moreover have "mset (map node_id cs2) = mset (map node_id cs1 @ [fresh..<fresh'])"
    using ids2 by simp
  ultimately have d2: "distinct (map node_id cs2)" using mset_eq_imp_distinct_iff by blast
  have b2: "\<And>i. i \<in> set (map node_id cs2) \<Longrightarrow> i < fresh'"
  proof -
    fix i assume "i \<in> set (map node_id cs2)"
    then have "i \<in># mset (map node_id cs1) + mset [fresh..<fresh']"
      using ids2 by (metis set_mset_mset)
    then show "i < fresh'" using d1(2) le by fastforce
  qed
  show "wf_layer cs' fresh'"
    unfolding wf_layer_def cs' list_all_iff using d2 b2
    by (metis (no_types, lifting) image_eqI set_attrs_ids set_map)
  have dm: "distinct (map fst merged)"
  proof -
    have "distinct (map node_id (tagged t cs2))"
      unfolding tagged_def using d2 by (rule distinct_map_filter)
    then show ?thesis using tids2 mset_eq_imp_distinct_iff by blast
  qed
  have others: "set_attrs render merged (filter (\<lambda>n. node_tag n \<noteq> t) cs2)
      = filter (\<lambda>n. node_tag n \<noteq> t) cs2"
  proof (rule set_attrs_others)
    fix c assume c: "c \<in> set (filter (\<lambda>n. node_tag n \<noteq> t) cs2)"
    show "node_id c \<notin> fst ` set merged"
    proof
      assume "node_id c \<in> fst ` set merged"
      then have "node_id c \<in> set (map node_id (tagged t cs2))"
        using tids2 by (metis mset_eq_setD set_map)
      then obtain c' where c': "c' \<in> set cs2" "node_tag c' = t" "node_id c' = node_id c"
        by (auto simp: tagged_def)
      have "inj_on node_id (set cs2)" using d2 by (simp add: distinct_map)
      then have "c' = c" using c c' by (auto dest: inj_onD)
      then show False using c c'(2) by simp
    qed
  qed
  have "filter (\<lambda>n. node_tag n \<noteq> t) cs' = set_attrs render merged (filter (\<lambda>n. node_tag n \<noteq> t) cs2)"
    unfolding cs' by (induction cs2) (auto simp: set_attrs_def split: option.splits)
  then show "filter (\<lambda>n. node_tag n \<noteq> t) cs' = filter (\<lambda>n. node_tag n \<noteq> t) cs"
    using others oth2 by simp
  show "fresh \<le> fresh'" by (rule le)
  define G where "G = (\<lambda>i. case map_of merged i of Some d \<Rightarrow> (d, render d) | None \<Rightarrow> undefined)"
  have each: "(datum c', shape c') = G (node_id c)"
    if "c \<in> set (tagged t cs2)" "c' = (case map_of merged (node_id c) of
          Some d \<Rightarrow> c\<lparr>datum := d, shape := render d\<rparr> | None \<Rightarrow> c)" for c c'
  proof -
    have "node_id c \<in> set (map fst merged)"
      using that(1) tids2 by (metis image_eqI mset_eq_setD set_map)
    then obtain d where "map_of merged (node_id c) = Some d"
      by (metis (no_types, opaque_lifting) image_set map_of_eq_None_iff not_Some_eq)
    then show ?thesis using that(2) by (simp add: G_def)
  qed
  have "tagged t cs' = set_attrs render merged (tagged t cs2)"
    unfolding cs' by (rule set_attrs_tagged)
  then have "map (\<lambda>n. (datum n, shape n)) (tagged t cs')
      = map (\<lambda>c. (datum (case map_of merged (node_id c) of
                Some d \<Rightarrow> c\<lparr>datum := d, shape := render d\<rparr> | None \<Rightarrow> c),
              shape (case map_of merged (node_id c) of
                Some d \<Rightarrow> c\<lparr>datum := d, shape := render d\<rparr> | None \<Rightarrow> c))) (tagged t cs2)"
    by (simp add: set_attrs_def comp_def)
  also have "\<dots> = map (\<lambda>c. G (node_id c)) (tagged t cs2)"
    by (rule map_cong[OF refl]) (rule each, simp_all)
  finally have "map (\<lambda>n. (datum n, shape n)) (tagged t cs') = map G (map node_id (tagged t cs2))"
    by (simp add: comp_def)
  then have "image_mset (\<lambda>n. (datum n, shape n)) (mset (tagged t cs'))
      = image_mset G (mset (map node_id (tagged t cs2)))"
    by (metis mset_map)
  also have "\<dots> = image_mset G (mset (map fst merged))" using tids2 by simp
  also have "\<dots> = mset (map G (map fst merged))" by (simp only: mset_map)
  also have "map G (map fst merged) = map (\<lambda>p. (snd p, render (snd p))) merged"
  proof -
    have "map G (map fst merged) = map (\<lambda>r. case r of Some d \<Rightarrow> (d, render d) | None \<Rightarrow> undefined)
        (map (\<lambda>i. map_of merged i) (map fst merged))"
      by (simp add: G_def comp_def)
    then show ?thesis unfolding map_of_distinct_fst[OF dm] by (simp add: comp_def)
  qed
  also have "mset (map (\<lambda>p. (snd p, render (snd p))) merged)
      = image_mset (\<lambda>d. (d, render d)) (mset (map snd merged))"
    by (simp add: image_mset.compositionality comp_def)
  finally show "image_mset (\<lambda>n. (datum n, shape n)) (mset (tagged t cs'))
          = image_mset (\<lambda>d. (d, render d)) (mset ds)"
    using snd by simp
qed

lemma tag_neq: "(t \<noteq> Text) = (t = Rect)" "(t \<noteq> Rect) = (t = Text)"
  by (cases t; simp)+

lemma all_shapes_iff: "all_shapes (rect_shape h v) ds = Inr () \<longleftrightarrow> (\<forall>d \<in> set ds. bbox d \<noteq> NoBBox)"
proof (induction ds)
  case Nil
  then show ?case by simp
next
  case (Cons d ds)
  then show ?case by (cases "bbox d") (simp_all add: rect_shape_def)
qed

lemma all_shapes_cases: "all_shapes f ds = Inr () \<or> all_shapes f ds = Inl TypeError"
proof (induction ds)
  case Nil
  then show ?case by simp
next
  case (Cons d ds)
  then show ?case by (cases "f d") (auto intro: error.exhaust)
qed

text \<open>The function on the path that redraws, in one equation.\<close>

lemma updateBoundingBoxes_redraws:
  assumes "svg st = Some ov" "boundingBoxData st \<noteq> []" "video_of page st = Some v"
    "valid_geometry v"
  shows "updateBoundingBoxes h page f st =
    (if \<forall>d \<in> set (frame_records f st). bbox d \<noteq> NoBBox
     then Inr (st\<lparr>currentFrame := f,
                  svg := Some (ov\<lparr>boxes := fst (redraw_layer h v (frame_records f st) (boxes ov, next_node st))\<rparr>),
                  next_node := snd (redraw_layer h v (frame_records f st) (boxes ov, next_node st))\<rparr>)
     else Inl TypeError)"
proof -
  obtain c where c: "parentNode ov = Some c" "content_video (page c) = Some v"
    using assms(1,3) by (auto simp: video_of_def split: option.splits)
  show ?thesis
  proof (cases "\<forall>d \<in> set (frame_records f st). bbox d \<noteq> NoBBox")
    case True
    then have "all_shapes (rect_shape h v) (frame_records f st) = Inr ()"
      by (simp add: all_shapes_iff)
    then show ?thesis using assms c True
      by (simp add: updateBoundingBoxes_def valid_geometry_def frame_records_def[symmetric]
          redraw_layer_def Let_def split: prod.splits)
  next
    case False
    then have "all_shapes (rect_shape h v) (frame_records f st) \<noteq> Inr ()"
      by (simp add: all_shapes_iff)
    then have "all_shapes (rect_shape h v) (frame_records f st) = Inl TypeError"
      using all_shapes_cases by blast
    then show ?thesis using assms c False
      by (simp add: updateBoundingBoxes_def valid_geometry_def frame_records_def[symmetric] Let_def)
  qed
qed

lemma redraw_layer_props:
  assumes wf: "wf_layer cs fresh" and r: "redraw_layer h v ds (cs, fresh) = (cs', fresh')"
  shows "wf_layer cs' fresh'"
    and "image_mset (\<lambda>n. (datum n, shape n)) (mset (tagged Rect cs'))
          = image_mset (\<lambda>d. (d, the_shape (rect_shape h v) d)) (mset ds)"
    and "image_mset (\<lambda>n. (datum n, shape n)) (mset (tagged Text cs'))
          = image_mset (\<lambda>d. (d, the_shape (text_shape h v) d)) (mset ds)"
    and "fresh \<le> fresh'"
proof -
  obtain csR fr where jr: "join h Rect (the_shape (rect_shape h v)) ds (cs, fresh) = (csR, fr)"
    by (cases "join h Rect (the_shape (rect_shape h v)) ds (cs, fresh)") simp
  then have jt: "join h Text (the_shape (text_shape h v)) ds (csR, fr) = (cs', fresh')"
    using r by (simp add: redraw_layer_def)
  note R = join_props[OF wf jr]
  note T = join_props[OF R(1) jt]
  show "wf_layer cs' fresh'" by (rule T(1))
  have "tagged Rect cs' = tagged Rect csR" using T(2) by (simp add: tagged_def tag_neq)
  then show "image_mset (\<lambda>n. (datum n, shape n)) (mset (tagged Rect cs'))
          = image_mset (\<lambda>d. (d, the_shape (rect_shape h v) d)) (mset ds)"
    using R(3) by simp
  show "image_mset (\<lambda>n. (datum n, shape n)) (mset (tagged Text cs'))
          = image_mset (\<lambda>d. (d, the_shape (text_shape h v) d)) (mset ds)"
    by (rule T(3))
  show "fresh \<le> fresh'" using R(4) T(4) by simp
qed

lemma mset_by_tag:
  "image_mset (\<lambda>n. (node_tag n, datum n, shape n)) (mset cs)
   = image_mset (\<lambda>p. (Rect, p)) (image_mset (\<lambda>n. (datum n, shape n)) (mset (tagged Rect cs)))
     + image_mset (\<lambda>p. (Text, p)) (image_mset (\<lambda>n. (datum n, shape n)) (mset (tagged Text cs)))"
proof (induction cs)
  case Nil
  then show ?case by (simp add: tagged_def)
next
  case (Cons c cs)
  then show ?case by (cases "node_tag c") (simp_all add: tagged_def)
qed

lemma updateBoundingBoxes_primitives:
  assumes "wf_state st" "updateBoundingBoxes h page f st = Inr st1"
    "boundingBoxData st \<noteq> []" "video_of page st = Some v" "valid_geometry v"
  shows "primitives st1 = drawn h v (frame_records f st)"
    and "wf_state st1"
    and "boundingBoxData st1 = boundingBoxData st" "video_of page' st1 = video_of page' st"
    and "currentFrame st1 = f" "console st1 = console st"
    and "next_node st \<le> next_node st1"
proof -
  obtain ov where ov: "svg st = Some ov"
    using assms(4) by (auto simp: video_of_def split: option.splits)
  let ?ds = "frame_records f st"
  obtain cs' fresh' where r: "redraw_layer h v ?ds (boxes ov, next_node st) = (cs', fresh')"
    by (cases "redraw_layer h v ?ds (boxes ov, next_node st)") simp
  have st1: "st1 = st\<lparr>currentFrame := f, svg := Some (ov\<lparr>boxes := cs'\<rparr>), next_node := fresh'\<rparr>"
    using assms(2) updateBoundingBoxes_redraws[OF ov assms(3,4,5), of h f] r
    by (simp split: if_splits)
  have wf: "wf_layer (boxes ov) (next_node st)" using assms(1) ov by (simp add: wf_state_def)
  note P = redraw_layer_props[OF wf r]
  show "wf_state st1" using P(1) by (simp add: st1 wf_state_def)
  show "primitives st1 = drawn h v ?ds"
    unfolding drawn_def
    by (simp add: st1 primitives_def mset_by_tag[of cs'] P(2,3) image_mset.compositionality comp_def)
  show "boundingBoxData st1 = boundingBoxData st" "video_of page' st1 = video_of page' st"
    "currentFrame st1 = f" "console st1 = console st" "next_node st \<le> next_node st1"
    using ov P(4) by (simp_all add: st1 video_of_def)
qed

lemma distinct_map_neq: "distinct (map g (a # ns)) \<Longrightarrow> n \<in> set ns \<Longrightarrow> g n \<noteq> g a"
  by (metis distinct.simps(2) image_eqI list.simps(9) set_map)

lemma nodeByKeyValue_distinct:
  assumes "distinct (map (\<lambda>n. key h (datum n)) ns)" "n \<in> set ns"
  shows "nodeByKeyValue h ns (key h (datum n)) = Some (node_id n)"
  using assms
proof (induction ns)
  case Nil
  then show ?case by simp
next
  case (Cons a ns)
  show ?case
  proof (cases "n = a")
    case True
    then show ?thesis by simp
  next
    case False
    then have n: "n \<in> set ns" using Cons.prems by simp
    then have "key h (datum n) \<noteq> key h (datum a)"
      using distinct_map_neq[OF Cons.prems(1)] by blast
    then show ?thesis using Cons.IH n Cons.prems(1) by simp
  qed
qed

lemma filter_distinct_key:
  assumes "distinct (map g ns)" "n \<in> set ns"
  shows "filter (\<lambda>n'. g n' = g n) ns = [n]"
  using assms
proof (induction ns)
  case Nil
  then show ?case by simp
next
  case (Cons a ns)
  show ?case
  proof (cases "n = a")
    case True
    have "filter (\<lambda>n'. g n' = g a) ns = []"
      using Cons.prems(1) by (auto simp: filter_empty_conv image_iff)
    then show ?thesis using True by simp
  next
    case False
    then have n: "n \<in> set ns" using Cons.prems by simp
    then have "g a \<noteq> g n" using Cons.prems(1) by force
    then show ?thesis using Cons.IH n Cons.prems(1) by simp
  qed
qed

lemma join_node_of_update:
  assumes wf: "wf_layer cs fresh" and j: "join h t render ds (cs, fresh) = (cs', fresh')"
    and z: "(Inl i, d) \<in> set (zip (bind h (nodeByKeyValue h (tagged t cs)) ds) ds)"
  shows "\<exists>n \<in> set (tagged t cs'). node_id n = i \<and> datum n = d"
proof -
  define sel where "sel = tagged t cs"
  define bound where "bound = bind h (nodeByKeyValue h sel) ds"
  define exit where "exit = filter (\<lambda>n. Inl (node_id n) \<notin> set bound) sel"
  define cs1 where "cs1 = filter (\<lambda>n. node_id n \<notin> set (map node_id exit)) cs"
  obtain merged cs2 where ae: "append_enter t bound ds cs1 fresh = (merged, cs2, fresh')"
    and cs': "cs' = set_attrs render merged cs2"
    using j by (auto simp: join_def Let_def sel_def bound_def exit_def cs1_def tagged_def
        split: prod.splits)
  have len: "length bound = length ds" by (simp add: bound_def length_bind)
  have m: "(i, d) \<in> set merged"
    using append_enter_zip[OF len ae] z by (simp add: bound_def sel_def)
  have wf': "wf_layer cs' fresh'" by (rule join_props(1)[OF wf j])
  have J3: "image_mset (\<lambda>n. (datum n, shape n)) (mset (tagged t cs'))
          = image_mset (\<lambda>d. (d, render d)) (mset ds)" by (rule join_props(3)[OF wf j])
  have dist: "distinct (map node_id cs)" and lt: "\<forall>n \<in> set cs. node_id n < fresh"
    using wf by (auto simp: wf_layer_def list_all_iff)
  have inj: "inj_on node_id (set cs)" using dist by (simp add: distinct_map)
  have dsel: "distinct (map node_id sel)"
    unfolding sel_def tagged_def using dist by (rule distinct_map_filter)
  have F1: "distinct (updates bound)"
    unfolding bound_def
    by (rule bind_updates_distinct) (use nodeByKeyValue_inj[OF dsel] in blast)
  have F2: "set (updates bound) \<subseteq> node_id ` set sel"
  proof
    fix i assume "i \<in> set (updates bound)"
    then have "i \<in> ran (nodeByKeyValue h sel)" unfolding bound_def by (rule bind_updates_ran)
    then obtain k where "nodeByKeyValue h sel k = Some i" by (auto simp: ran_def)
    from nodeByKeyValue_Some[OF this] show "i \<in> node_id ` set sel" by auto
  qed
  have ib: "Inl i \<in> set bound"
    using set_zip_leftD[OF z] by (simp add: bound_def sel_def)
  then have "i \<in> set (updates bound)" by (simp add: set_updates)
  then have isel: "i \<in> node_id ` set sel" using F2 by blast
  obtain c where c: "c \<in> set sel" "node_id c = i" using isel by auto
  then have ccs: "c \<in> set cs" "node_tag c = t" by (simp_all add: sel_def tagged_def)
  have "c \<notin> set exit" using c ib by (simp add: exit_def)
  have c1: "c \<in> set cs1"
  proof -
    have "node_id c \<notin> set (map node_id exit)"
    proof
      assume "node_id c \<in> set (map node_id exit)"
      then obtain e where e: "e \<in> set exit" "node_id e = node_id c" by auto
      then have "e \<in> set cs" by (simp add: exit_def sel_def tagged_def)
      then have "e = c" using inj ccs(1) e(2) by (auto dest: inj_onD)
      then show False using e(1) \<open>c \<notin> set exit\<close> by simp
    qed
    then show ?thesis using ccs(1) by (simp add: cs1_def)
  qed
  note P = append_enter_props[OF len ae]
  have "i \<in># mset (map node_id (tagged t cs1))"
    using c1 ccs(2) c(2) by (auto simp: tagged_def)
  then have "i \<in># mset (map node_id (tagged t cs2))" using P by simp
  then obtain c2 where c2: "c2 \<in> set (tagged t cs2)" "node_id c2 = i" by auto
  have tids2: "mset (map node_id (tagged t cs2)) = mset (map fst merged)"
  proof -
    have "tagged t cs1 = filter (\<lambda>n. node_id n \<in> set (updates bound)) sel"
    proof -
      have "cs1 = filter (\<lambda>n. node_tag n \<noteq> t \<or> node_id n \<in> set (updates bound)) cs"
        unfolding cs1_def
      proof (rule filter_cong[OF refl])
        fix n assume n: "n \<in> set cs"
        have "node_id n \<in> set (map node_id exit) \<longleftrightarrow> n \<in> set exit"
        proof
          assume "node_id n \<in> set (map node_id exit)"
          then obtain e where e: "e \<in> set exit" "node_id e = node_id n" by auto
          then have "e \<in> set cs" by (simp add: exit_def sel_def tagged_def)
          then have "e = n" using inj n e(2) by (auto dest: inj_onD)
          then show "n \<in> set exit" using e(1) by simp
        qed simp
        then show "(node_id n \<notin> set (map node_id exit))
            = (node_tag n \<noteq> t \<or> node_id n \<in> set (updates bound))"
          using n by (auto simp: exit_def sel_def tagged_def set_updates)
      qed
      then show ?thesis unfolding sel_def tagged_def by (auto intro: filter_cong)
    qed
    then have "map node_id (tagged t cs1)
        = filter (\<lambda>i. i \<in> set (updates bound)) (map node_id sel)"
      by (simp add: filter_map comp_def)
    then have "mset (map node_id (tagged t cs1)) = mset (updates bound)"
      using distinct_filter_mset[OF dsel F1] F2 by simp
    then show ?thesis using P by simp
  qed
  have d2: "distinct (map node_id (tagged t cs'))"
    using wf' by (simp add: wf_layer_def tagged_def distinct_map_filter)
  have "map node_id (tagged t cs') = map node_id (tagged t cs2)"
    unfolding cs' set_attrs_tagged by (rule set_attrs_ids)
  then have "distinct (map node_id (tagged t cs2))" using d2 by simp
  then have dm: "distinct (map fst merged)" using tids2 mset_eq_imp_distinct_iff by blast
  have mo: "map_of merged i = Some d" using dm m by simp
  let ?n = "c2\<lparr>datum := d, shape := render d\<rparr>"
  have "?n \<in> set (set_attrs render merged (tagged t cs2))"
    using c2 mo by (force simp: set_attrs_def image_iff)
  then have "?n \<in> set (tagged t cs')" unfolding cs' set_attrs_tagged .
  then show ?thesis using c2(2) by (intro bexI[of _ ?n]) simp_all
qed

lemma join_in_place:
  assumes wf: "wf_layer cs fresh" and j: "join h t render ds (cs, fresh) = (cs', fresh')"
    and dk: "distinct (map (\<lambda>n. key h (datum n)) (tagged t cs))" "distinct (map (key h) ds)"
    and n: "n \<in> set (tagged t cs)" and d: "d \<in> set ds" "key h d = key h (datum n)"
  shows "\<exists>n' \<in> set (tagged t cs'). node_id n' = node_id n \<and> datum n' = d"
proof (rule join_node_of_update[OF wf j])
  have m: "nodeByKeyValue h (tagged t cs) (key h d) = Some (node_id n)"
    using nodeByKeyValue_distinct[OF dk(1) n] d(2) by simp
  have "bind h (nodeByKeyValue h (tagged t cs)) ds
      = map (\<lambda>d. case nodeByKeyValue h (tagged t cs) (key h d) of Some i \<Rightarrow> Inl i | None \<Rightarrow> Inr ()) ds"
    by (rule bind_distinct_keys[OF dk(2)])
  then have "zip (bind h (nodeByKeyValue h (tagged t cs)) ds) ds
      = map (\<lambda>d. (case nodeByKeyValue h (tagged t cs) (key h d) of Some i \<Rightarrow> Inl i | None \<Rightarrow> Inr (), d)) ds"
    by (simp add: zip_map1 zip_same_conv_map)
  then show "(Inl (node_id n), d) \<in> set (zip (bind h (nodeByKeyValue h (tagged t cs)) ds) ds)"
    using d(1) m by (force simp: image_iff)
qed

lemma tagged_keys:
  assumes "image_mset (\<lambda>n. (datum n, shape n)) (mset ns) = image_mset (\<lambda>d. (d, render d)) (mset ds)"
  shows "mset (map (\<lambda>n. key h (datum n)) ns) = mset (map (key h) ds)"
proof -
  have "image_mset (\<lambda>p. key h (fst p)) (image_mset (\<lambda>n. (datum n, shape n)) (mset ns))
      = image_mset (\<lambda>p. key h (fst p)) (image_mset (\<lambda>d. (d, render d)) (mset ds))"
    using assms by simp
  then show ?thesis by (simp add: image_mset.compositionality comp_def)
qed

lemma redraw_layer_in_place:
  assumes wf: "wf_layer cs fresh" and r: "redraw_layer h v ds (cs, fresh) = (cs', fresh')"
    and dk: "distinct (map (\<lambda>n. key h (datum n)) (tagged t cs))" "distinct (map (key h) ds)"
    and n: "n \<in> set (tagged t cs)" and d: "d \<in> set ds" "key h d = key h (datum n)"
  shows "\<exists>n' \<in> set (tagged t cs'). node_id n' = node_id n \<and> datum n' = d"
proof -
  obtain csR fr where jr: "join h Rect (the_shape (rect_shape h v)) ds (cs, fresh) = (csR, fr)"
    by (cases "join h Rect (the_shape (rect_shape h v)) ds (cs, fresh)") simp
  then have jt: "join h Text (the_shape (text_shape h v)) ds (csR, fr) = (cs', fresh')"
    using r by (simp add: redraw_layer_def)
  note R = join_props[OF wf jr]
  note T = join_props[OF R(1) jt]
  show ?thesis
  proof (cases t)
    case Rect
    have "tagged Rect cs' = tagged Rect csR" using T(2) by (simp add: tagged_def tag_neq)
    then show ?thesis
      using join_in_place[OF wf jr dk[unfolded Rect] n[unfolded Rect] d] Rect by simp
  next
    case Text
    have eq: "tagged Text csR = tagged Text cs" using R(2) by (simp add: tagged_def tag_neq)
    have dk': "distinct (map (\<lambda>n. key h (datum n)) (tagged Text csR))"
      using dk(1) Text eq by simp
    have n': "n \<in> set (tagged Text csR)" using n Text eq by simp
    show ?thesis using join_in_place[OF R(1) jt dk' dk(2) n' d] Text by simp
  qed
qed

lemma nodeByKeyValue_first:
  "k \<in> (\<lambda>n. key h (datum n)) ` set ns \<Longrightarrow>
   \<exists>n \<in> set ns. key h (datum n) = k \<and> nodeByKeyValue h ns k = Some (node_id n)"
proof (induction ns)
  case Nil
  then show ?case by simp
next
  case (Cons a ns)
  show ?case
  proof (cases "key h (datum a) = k")
    case True
    then show ?thesis by simp
  next
    case False
    then have "k \<in> (\<lambda>n. key h (datum n)) ` set ns" using Cons.prems by auto
    then obtain n where "n \<in> set ns" "key h (datum n) = k" "nodeByKeyValue h ns k = Some (node_id n)"
      using Cons.IH by blast
    then show ?thesis using False by auto
  qed
qed

lemma bind_first:
  "m k = Some i \<Longrightarrow> k \<in> key h ` set ds \<Longrightarrow>
   \<exists>d \<in> set ds. key h d = k \<and> (Inl i, d) \<in> set (zip (bind h m ds) ds)"
proof (induction ds arbitrary: m)
  case Nil
  then show ?case by simp
next
  case (Cons a ds)
  show ?case
  proof (cases "key h a = k")
    case True
    then show ?thesis using Cons.prems(1) by simp
  next
    case False
    then have k: "k \<in> key h ` set ds" using Cons.prems(2) by auto
    show ?thesis
    proof (cases "m (key h a)")
      case None
      from Cons.IH[of m, OF Cons.prems(1) k]
      obtain d where d: "d \<in> set ds" "key h d = k"
        "(Inl i, d) \<in> set (zip (bind h m ds) ds)" by blast
      have "bind h m (a # ds) = Inr () # bind h m ds" using None by simp
      then have "(Inl i, d) \<in> set (zip (bind h m (a # ds)) (a # ds))" using d(3) by simp
      then show ?thesis using d(1,2) by (intro bexI[of _ d]) simp_all
    next
      case (Some j)
      have "(m(key h a := None)) k = Some i" using False Cons.prems(1) by simp
      from Cons.IH[of "m(key h a := None)", OF this k]
      obtain d where d: "d \<in> set ds" "key h d = k"
        "(Inl i, d) \<in> set (zip (bind h (m(key h a := None)) ds) ds)" by blast
      have "bind h m (a # ds) = Inl j # bind h (m(key h a := None)) ds" using Some by simp
      then have "(Inl i, d) \<in> set (zip (bind h m (a # ds)) (a # ds))" using d(3) by simp
      then show ?thesis using d(1,2) by (intro bexI[of _ d]) simp_all
    qed
  qed
qed

lemma join_persists:
  assumes wf: "wf_layer cs fresh" and j: "join h t render ds (cs, fresh) = (cs', fresh')"
    and k: "k \<in> (\<lambda>n. key h (datum n)) ` set (tagged t cs)" "k \<in> key h ` set ds"
  shows "\<exists>n \<in> set (tagged t cs). \<exists>n' \<in> set (tagged t cs'). \<exists>d \<in> set ds.
           key h (datum n) = k \<and> key h d = k \<and> node_id n' = node_id n \<and> datum n' = d"
proof -
  obtain n where n: "n \<in> set (tagged t cs)" "key h (datum n) = k"
    "nodeByKeyValue h (tagged t cs) k = Some (node_id n)"
    using nodeByKeyValue_first[OF k(1)] by blast
  obtain d where d: "d \<in> set ds" "key h d = k"
    "(Inl (node_id n), d) \<in> set (zip (bind h (nodeByKeyValue h (tagged t cs)) ds) ds)"
    using bind_first[where m = "nodeByKeyValue h (tagged t cs)", OF n(3) k(2)] by blast
  obtain n' where "n' \<in> set (tagged t cs')" "node_id n' = node_id n" "datum n' = d"
    using join_node_of_update[OF wf j d(3)] by blast
  then show ?thesis using n d by blast
qed

lemma tagged_shape:
  assumes "image_mset (\<lambda>n. (datum n, shape n)) (mset ns) = image_mset (\<lambda>d. (d, r d)) (mset ds)"
    and "n \<in> set ns"
  shows "datum n \<in> set ds \<and> shape n = r (datum n)"
proof -
  have "(datum n, shape n) \<in># image_mset (\<lambda>n. (datum n, shape n)) (mset ns)"
    using assms(2) by auto
  then have "(datum n, shape n) \<in># image_mset (\<lambda>d. (d, r d)) (mset ds)"
    using assms(1) by simp
  then show ?thesis by auto
qed

lemma redraw_layer_shapes:
  assumes wf: "wf_layer cs fresh" and r: "redraw_layer h v ds (cs, fresh) = (cs', fresh')"
    and n: "n \<in> set (tagged t cs')"
  shows "datum n \<in> set ds \<and> shape n = drawn_shape h v t (datum n)"
proof (cases t)
  case Rect
  then show ?thesis
    using tagged_shape[OF redraw_layer_props(2)[OF wf r]] n by (simp add: drawn_shape_def)
next
  case Text
  then show ?thesis
    using tagged_shape[OF redraw_layer_props(3)[OF wf r]] n by (simp add: drawn_shape_def)
qed

lemma redraw_layer_persists:
  assumes wf: "wf_layer cs fresh" and r: "redraw_layer h v ds (cs, fresh) = (cs', fresh')"
    and k: "k \<in> (\<lambda>n. key h (datum n)) ` set (tagged t cs)" "k \<in> key h ` set ds"
  shows "\<exists>n \<in> set (tagged t cs). \<exists>n' \<in> set (tagged t cs'). \<exists>d \<in> set ds.
           key h (datum n) = k \<and> key h d = k \<and> node_id n' = node_id n \<and> datum n' = d
           \<and> shape n' = drawn_shape h v t d"
proof -
  obtain csR fr where jr: "join h Rect (the_shape (rect_shape h v)) ds (cs, fresh) = (csR, fr)"
    by (cases "join h Rect (the_shape (rect_shape h v)) ds (cs, fresh)") simp
  then have jt: "join h Text (the_shape (text_shape h v)) ds (csR, fr) = (cs', fresh')"
    using r by (simp add: redraw_layer_def)
  note R = join_props[OF wf jr]
  note T = join_props[OF R(1) jt]
  have "\<exists>n \<in> set (tagged t cs). \<exists>n' \<in> set (tagged t cs'). \<exists>d \<in> set ds.
           key h (datum n) = k \<and> key h d = k \<and> node_id n' = node_id n \<and> datum n' = d"
  proof (cases t)
    case Rect
    have "tagged Rect cs' = tagged Rect csR" using T(2) by (simp add: tagged_def tag_neq)
    then show ?thesis using join_persists[OF wf jr k[unfolded Rect]] Rect by simp
  next
    case Text
    have eq: "tagged Text csR = tagged Text cs" using R(2) by (simp add: tagged_def tag_neq)
    have k': "k \<in> (\<lambda>n. key h (datum n)) ` set (tagged Text csR)" using k(1) Text eq by simp
    show ?thesis using join_persists[OF R(1) jt k' k(2)] Text eq by simp
  qed
  then obtain n n' d where *: "n \<in> set (tagged t cs)" "n' \<in> set (tagged t cs')" "d \<in> set ds"
    "key h (datum n) = k" "key h d = k" "node_id n' = node_id n" "datum n' = d"
    by blast
  have "shape n' = drawn_shape h v t d" using redraw_layer_shapes[OF wf r *(2)] *(7) by simp
  then show ?thesis using * by blast
qed

lemma nodes_with_key_unique:
  assumes "svg st = Some ov" "distinct (map (\<lambda>n. key h (datum n)) (tagged t (boxes ov)))"
    "n \<in> set (tagged t (boxes ov))"
  shows "nodes_with_key h t (key h (datum n)) st = [node_id n]"
proof -
  have "filter (\<lambda>n'. node_tag n' = t \<and> key h (datum n') = key h (datum n)) (boxes ov)
      = filter (\<lambda>n'. key h (datum n') = key h (datum n)) (tagged t (boxes ov))"
    by (simp add: tagged_def conj_commute)
  also have "\<dots> = [n]" by (rule filter_distinct_key[OF assms(2,3)])
  finally show ?thesis using assms(1) by (simp add: nodes_with_key_def)
qed

lemma valid_example_video: "valid_geometry example_video"
  by (simp add: valid_geometry_def example_video_def truthy_number_def)

lemma updateBoundingBoxes_returns:
  assumes "boundingBoxData st \<noteq> []" "video_of page st = Some v" "valid_geometry v"
    "\<forall>d \<in> set (frame_records f st). bbox d \<noteq> NoBBox"
  shows "\<exists>st1. updateBoundingBoxes h page f st = Inr st1"
proof -
  obtain ov where ov: "svg st = Some ov"
    using assms(2) by (auto simp: video_of_def split: option.splits)
  show ?thesis using updateBoundingBoxes_redraws[OF ov assms(1,2,3), of h f] assms(4) by simp
qed

section \<open>Records the guards do not cover\<close>

lemma missing_bbox_throws:
  assumes "boundingBoxData st \<noteq> []" "video_of page st = Some v" "valid_geometry v"
    and "d \<in> set (frame_records f st)" "bbox d = NoBBox"
  shows "updateBoundingBoxes h page f st = Inl TypeError"
proof -
  obtain ov where ov: "svg st = Some ov"
    using assms(2) by (auto simp: video_of_def split: option.splits)
  show ?thesis using updateBoundingBoxes_redraws[OF ov assms(1,2,3), of h f] assms(4,5) by auto
qed

section \<open>Duplicate identifiers\<close>

text \<open>
  Two records of one frame with the same identifier: the second node is taken for a
  duplicate and leaves, and the second record enters with a new node, at every redraw.
\<close>

lemma join_steps:
  assumes "filter (\<lambda>n. node_tag n = t) cs = sel"
    and "bind h (nodeByKeyValue h sel) ds = bound"
    and "filter (\<lambda>n. Inl (node_id n) \<notin> set bound) sel = exit"
    and "filter (\<lambda>n. node_id n \<notin> set (map node_id exit)) cs = cs1"
    and "append_enter t bound ds cs1 fresh = (merged, cs2, fresh')"
  shows "join h t render ds (cs, fresh) = (set_attrs render merged cs2, fresh')"
  unfolding join_def Let_def prod.case assms ..

lemma join_duplicate_keys:
  assumes "key h d1 = key h d2"
  shows "join h t render [d1, d2]
      ([\<lparr>node_id = 0, node_tag = t, datum = d1, shape = s1\<rparr>,
        \<lparr>node_id = 1, node_tag = t, datum = d2, shape = s2\<rparr>], 2)
    = ([\<lparr>node_id = 0, node_tag = t, datum = d1, shape = render d1\<rparr>,
        \<lparr>node_id = 2, node_tag = t, datum = d2, shape = render d2\<rparr>], 3)"
proof -
  let ?n0 = "\<lparr>node_id = 0, node_tag = t, datum = d1, shape = s1\<rparr>"
  let ?n1 = "\<lparr>node_id = 1, node_tag = t, datum = d2, shape = s2\<rparr>"
  let ?n2 = "\<lparr>node_id = 2, node_tag = t, datum = d2, shape = Blank\<rparr>"
  have "join h t render [d1, d2] ([?n0, ?n1], 2)
      = (set_attrs render [(0, d1), (2, d2)] [?n0, ?n2], 3)"
  proof (rule join_steps[where sel = "[?n0, ?n1]" and bound = "[Inl 0, Inr ()]"
        and exit = "[?n1]" and ?cs1.0 = "[?n0]"])
    show "bind h (nodeByKeyValue h [?n0, ?n1]) [d1, d2] = [Inl 0, Inr ()]"
      using assms by simp
  qed simp_all
  then show ?thesis by (simp add: set_attrs_def)
qed

section \<open>Reachable states are well formed\<close>

lemma wf_state_initial: "wf_state initial_state"
  by (simp add: wf_state_def initial_state_def)

lemma wf_state_initialize: "wf_state st \<Longrightarrow> wf_state (initializeBoundingBoxes h page c st)"
  by (auto simp: wf_state_def initializeBoundingBoxes_def remove_overlay_def wf_layer_def Let_def
      split: option.splits)

lemma wf_state_load: "wf_state st \<Longrightarrow> wf_state (loadBoundingBoxData r st)"
  by (cases r) (auto simp: wf_state_def split: option.splits)

lemma wf_state_update:
  assumes "wf_state st" "updateBoundingBoxes h page f st = Inr st1"
  shows "wf_state st1"
proof (cases "boundingBoxData st \<noteq> [] \<and> (\<exists>v. video_of page st = Some v \<and> valid_geometry v)")
  case True
  then show ?thesis using updateBoundingBoxes_primitives(2)[OF assms] by blast
next
  case False
  then have "st1 = st \<or> st1 = st\<lparr>currentFrame := f\<rparr>"
    using assms(2)
    by (auto simp: updateBoundingBoxes_def video_of_def valid_geometry_def Let_def
        split: option.splits if_splits)
  then show ?thesis using assms(1) by (auto simp: wf_state_def split: option.splits)
qed

section \<open>What a redraw puts into the layer\<close>

lemma drawn_rects:
  assumes "wf_state st" "boundingBoxData st \<noteq> []" "video_of page st = Some v" "valid_geometry v"
    and "updateBoundingBoxes h page f st = Inr st1"
  shows "(Rect, d, s) \<in># primitives st1
      \<longleftrightarrow> d \<in> set (frame_records f st) \<and> s = the_shape (rect_shape h v) d"
    and "\<forall>d \<in> set (frame_records f st). bbox d \<noteq> NoBBox"
proof -
  note U = updateBoundingBoxes_primitives[OF assms(1,5,2,3,4)]
  show "(Rect, d, s) \<in># primitives st1
      \<longleftrightarrow> d \<in> set (frame_records f st) \<and> s = the_shape (rect_shape h v) d"
    by (auto simp: U(1) drawn_def)
  obtain ov where ov: "svg st = Some ov"
    using assms(3) by (auto simp: video_of_def split: option.splits)
  show "\<forall>d \<in> set (frame_records f st). bbox d \<noteq> NoBBox"
    using assms(5) updateBoundingBoxes_redraws[OF ov assms(2,3,4), of h f]
    by (simp split: if_splits)
qed

lemma rect_shape_Box:
  "bbox d = BBox cs \<Longrightarrow> the_shape (rect_shape h v) d = Box
          \<lparr>box_x = rect_x h v cs, box_y = rect_y h v cs,
           box_width = rect_width' h v cs, box_height = rect_height' h v cs,
           box_class = ''bounding-box'', box_fill = ''none'',
           box_stroke = class_color h d, box_stroke_width = ''2px'',
           box_opacity = opacity h d\<rparr>"
  by (simp add: the_shape_def rect_shape_def)

text \<open>
  C1 (as amended). The transform is computed by the stated formulas. After a redraw,
  every record of the frame has a rectangle in the layer, and all its rectangles carry
  the same attributes: \<open>x\<close> and \<open>y\<close> are the values of the stated formulas when these
  are finite, and 0 otherwise; \<open>width\<close> and \<open>height\<close> are the values of the stated
  formulas when these are finite and positive, and 0 otherwise.
\<close>

theorem drawn_attributes:
  assumes "wf_state st" "boundingBoxData st \<noteq> []" "video_of page st = Some v" "valid_geometry v"
    and "updateBoundingBoxes h page f st = Inr st1"
  shows "scale h v = Math_min (js_div (rect_width (clientRect v)) (ToNumber h (videoWidth v)))
                        (js_div (rect_height (clientRect v)) (ToNumber h (videoHeight v)))
   \<and> actualWidth h v = js_mul (ToNumber h (videoWidth v)) (scale h v)
   \<and> actualHeight h v = js_mul (ToNumber h (videoHeight v)) (scale h v)
   \<and> xOffset h v = js_div (js_sub (rect_width (clientRect v)) (actualWidth h v)) (Fin 2)
   \<and> yOffset h v = js_div (js_sub (rect_height (clientRect v)) (actualHeight h v)) (Fin 2)
   \<and> (\<forall>d \<in> set (frame_records f st). \<exists>cs b.
         bbox d = BBox cs \<and> (Rect, d, Box b) \<in># primitives st1
         \<and> (\<forall>s. (Rect, d, s) \<in># primitives st1 \<longrightarrow> s = Box b)
         \<and> box_x b = (if isFinite (spec_x h v cs) then spec_x h v cs else Fin 0)
         \<and> box_y b = (if isFinite (spec_y h v cs) then spec_y h v cs else Fin 0)
         \<and> box_width b = (if isFinite (spec_width h v cs) \<and> js_gt (spec_width h v cs) (Fin 0)
                           then spec_width h v cs else Fin 0)
         \<and> box_height b = (if isFinite (spec_height h v cs) \<and> js_gt (spec_height h v cs) (Fin 0)
                            then spec_height h v cs else Fin 0))"
proof -
  note D = drawn_rects[OF assms]
  have "\<exists>cs b. bbox d = BBox cs \<and> (Rect, d, Box b) \<in># primitives st1
         \<and> (\<forall>s. (Rect, d, s) \<in># primitives st1 \<longrightarrow> s = Box b)
         \<and> box_x b = (if isFinite (spec_x h v cs) then spec_x h v cs else Fin 0)
         \<and> box_y b = (if isFinite (spec_y h v cs) then spec_y h v cs else Fin 0)
         \<and> box_width b = (if isFinite (spec_width h v cs) \<and> js_gt (spec_width h v cs) (Fin 0)
                           then spec_width h v cs else Fin 0)
         \<and> box_height b = (if isFinite (spec_height h v cs) \<and> js_gt (spec_height h v cs) (Fin 0)
                            then spec_height h v cs else Fin 0)"
    if d: "d \<in> set (frame_records f st)" for d
  proof -
    obtain cs where cs: "bbox d = BBox cs" using D(2) d by (cases "bbox d") auto
    show ?thesis
      using d cs
      by (intro exI[of _ cs] exI[of _ "\<lparr>box_x = rect_x h v cs, box_y = rect_y h v cs,
           box_width = rect_width' h v cs, box_height = rect_height' h v cs,
           box_class = ''bounding-box'', box_fill = ''none'',
           box_stroke = class_color h d, box_stroke_width = ''2px'',
           box_opacity = opacity h d\<rparr>"])
        (simp add: D(1) rect_shape_Box rect_x_spec rect_y_spec rect_width_spec rect_height_spec)
  qed
  then show ?thesis
    by (simp add: scale_def actualWidth_def actualHeight_def xOffset_def yOffset_def)
qed

lemma one_record_facts:
  "wf_state (initial_state\<lparr>boundingBoxData := [r], svg := Some example_overlay\<rparr>)"
  "boundingBoxData (initial_state\<lparr>boundingBoxData := [r], svg := Some example_overlay\<rparr>) \<noteq> []"
  "video_of example_page (initial_state\<lparr>boundingBoxData := [r], svg := Some example_overlay\<rparr>)
     = Some example_video"
  "frame r = JNum (Fin 3) \<Longrightarrow>
     frame_records (JNum (Fin 3)) (initial_state\<lparr>boundingBoxData := [r], svg := Some example_overlay\<rparr>) = [r]"
  by (simp_all add: wf_state_def wf_layer_def video_of_def example_overlay_def example_page_def
      frame_records_def)

theorem drawn_attributes_witness:
  "\<exists>st1 b. updateBoundingBoxes example_host example_page (JNum (Fin 3)) one_record_state = Inr st1
     \<and> (Rect, example_record, Box b) \<in># primitives st1
     \<and> box_x b = Fin (2932031007402667 / 70368744177664)
     \<and> box_y b = Fin (4104843410363733 / 35184372088832)
     \<and> box_width b = Fin (2932031007402667 / 35184372088832)
     \<and> box_height b = Fin (5864062014805333 / 140737488355328)"
proof -
  note F = one_record_facts[of example_record, folded one_record_state_def]
  have fr: "frame_records (JNum (Fin 3)) one_record_state = [example_record]"
    by (rule F(4)) (simp add: example_record_def)
  have "\<forall>d \<in> set (frame_records (JNum (Fin 3)) one_record_state). bbox d \<noteq> NoBBox"
    by (simp add: fr example_record_def)
  from updateBoundingBoxes_returns[OF F(2,3) valid_example_video this]
  obtain st1 where st1: "updateBoundingBoxes example_host example_page (JNum (Fin 3)) one_record_state = Inr st1"
    by blast
  have b: "bbox example_record = BBox [JNum (Fin 100), JNum (Fin 100), JNum (Fin 300), JNum (Fin 200)]"
    by (simp add: example_record_def)
  from drawn_attributes[OF F(1,2,3) valid_example_video st1]
  have "\<exists>cs b. bbox example_record = BBox cs \<and> (Rect, example_record, Box b) \<in># primitives st1
         \<and> (\<forall>s. (Rect, example_record, s) \<in># primitives st1 \<longrightarrow> s = Box b)
         \<and> box_x b = (if isFinite (spec_x example_host example_video cs)
                       then spec_x example_host example_video cs else Fin 0)
         \<and> box_y b = (if isFinite (spec_y example_host example_video cs)
                       then spec_y example_host example_video cs else Fin 0)
         \<and> box_width b = (if isFinite (spec_width example_host example_video cs)
                              \<and> js_gt (spec_width example_host example_video cs) (Fin 0)
                           then spec_width example_host example_video cs else Fin 0)
         \<and> box_height b = (if isFinite (spec_height example_host example_video cs)
                               \<and> js_gt (spec_height example_host example_video cs) (Fin 0)
                            then spec_height example_host example_video cs else Fin 0)"
    by (simp add: fr)
  then obtain b where "(Rect, example_record, Box b) \<in># primitives st1"
    "box_x b = Fin (2932031007402667 / 70368744177664)"
    "box_y b = Fin (4104843410363733 / 35184372088832)"
    "box_width b = Fin (2932031007402667 / 35184372088832)"
    "box_height b = Fin (5864062014805333 / 140737488355328)"
    by (auto simp: b example_spec_x example_spec_y example_spec_width example_spec_height js_gt_def)
  then show ?thesis using st1 by blast
qed

theorem drawn_width_counterexample:
  "\<not> (\<forall>st1 d cs b.
        updateBoundingBoxes example_host example_page (JNum (Fin 3)) inverted_state = Inr st1
        \<and> (Rect, d, Box b) \<in># primitives st1 \<and> bbox d = BBox cs
        \<longrightarrow> box_width b = spec_width example_host example_video cs)"
proof
  assume a: "\<forall>st1 d cs b.
        updateBoundingBoxes example_host example_page (JNum (Fin 3)) inverted_state = Inr st1
        \<and> (Rect, d, Box b) \<in># primitives st1 \<and> bbox d = BBox cs
        \<longrightarrow> box_width b = spec_width example_host example_video cs"
  note F = one_record_facts[of inverted_record, folded inverted_state_def]
  have fr: "frame_records (JNum (Fin 3)) inverted_state = [inverted_record]"
    by (rule F(4)) (simp add: inverted_record_def example_record_def)
  have bb: "bbox inverted_record = BBox [JNum (Fin 300), JNum (Fin 100), JNum (Fin 100), JNum (Fin 200)]"
    by (simp add: inverted_record_def)
  have "\<forall>d \<in> set (frame_records (JNum (Fin 3)) inverted_state). bbox d \<noteq> NoBBox"
    by (simp add: fr bb)
  from updateBoundingBoxes_returns[OF F(2,3) valid_example_video this]
  obtain st1 where st1: "updateBoundingBoxes example_host example_page (JNum (Fin 3)) inverted_state = Inr st1"
    by blast
  let ?cs = "[JNum (Fin 300), JNum (Fin 100), JNum (Fin 100), JNum (Fin 200)]"
  let ?b = "\<lparr>box_x = rect_x example_host example_video ?cs, box_y = rect_y example_host example_video ?cs,
           box_width = rect_width' example_host example_video ?cs,
           box_height = rect_height' example_host example_video ?cs,
           box_class = ''bounding-box'', box_fill = ''none'',
           box_stroke = class_color example_host inverted_record, box_stroke_width = ''2px'',
           box_opacity = opacity example_host inverted_record\<rparr>"
  have m: "(Rect, inverted_record, Box ?b) \<in># primitives st1"
    using drawn_rects(1)[OF F(1,2,3) valid_example_video st1, of inverted_record "Box ?b"]
    by (simp add: fr rect_shape_Box[OF bb])
  have w0: "rect_width' example_host example_video ?cs = Fin 0"
    using inverted_spec_width[of example_host] by (simp add: rect_width_spec js_gt_def)
  from a[rule_format, of st1 inverted_record ?b ?cs] st1 m bb
  have "box_width ?b = spec_width example_host example_video ?cs" by blast
  then show False using w0 inverted_spec_width[of example_host] by simp
qed

section \<open>Malformed bounding boxes\<close>

text \<open>
  C6 (as amended). In a frame all of whose records have a \<open>bbox\<close> that can be indexed,
  a record is drawn whatever the components of its \<open>bbox\<close> are, missing or not numbers,
  and the redraw throws nothing. Each drawn attribute is decided on its own: \<open>x\<close> and
  \<open>y\<close> are the values of their formulas when these are finite, and 0 otherwise;
  \<open>width\<close> and \<open>height\<close> are the values of their formulas when these are finite and
  positive, and 0 otherwise. So every drawn value is a finite number, \<open>width\<close> and
  \<open>height\<close> are never negative, an attribute that reads a component converting to NaN
  is 0, and an attribute whose components are good keeps its value beside one that is
  clamped.
\<close>

theorem malformed_bbox_tolerated:
  assumes "wf_state st" "boundingBoxData st \<noteq> []" "video_of page st = Some v" "valid_geometry v"
    and "\<forall>d \<in> set (frame_records f st). bbox d \<noteq> NoBBox"
  shows "\<exists>st1. updateBoundingBoxes h page f st = Inr st1
     \<and> (\<forall>d \<in> set (frame_records f st). \<exists>cs b.
          bbox d = BBox cs \<and> (Rect, d, Box b) \<in># primitives st1
          \<and> (\<forall>s. (Rect, d, s) \<in># primitives st1 \<longrightarrow> s = Box b)
          \<and> box_x b = (if isFinite (spec_x h v cs) then spec_x h v cs else Fin 0)
          \<and> box_y b = (if isFinite (spec_y h v cs) then spec_y h v cs else Fin 0)
          \<and> box_width b = (if isFinite (spec_width h v cs) \<and> js_gt (spec_width h v cs) (Fin 0)
                            then spec_width h v cs else Fin 0)
          \<and> box_height b = (if isFinite (spec_height h v cs) \<and> js_gt (spec_height h v cs) (Fin 0)
                             then spec_height h v cs else Fin 0)
          \<and> isFinite (box_x b) \<and> isFinite (box_y b)
          \<and> isFinite (box_width b) \<and> isFinite (box_height b)
          \<and> js_le (Fin 0) (box_width b) \<and> js_le (Fin 0) (box_height b)
          \<and> (ToNumber h (component cs 0) = NaN \<longrightarrow> box_x b = Fin 0 \<and> box_width b = Fin 0)
          \<and> (ToNumber h (component cs 1) = NaN \<longrightarrow> box_y b = Fin 0 \<and> box_height b = Fin 0)
          \<and> (ToNumber h (component cs 2) = NaN \<longrightarrow> box_width b = Fin 0)
          \<and> (ToNumber h (component cs 3) = NaN \<longrightarrow> box_height b = Fin 0))"
proof -
  obtain st1 where st1: "updateBoundingBoxes h page f st = Inr st1"
    using updateBoundingBoxes_returns[OF assms(2,3,4,5)] by blast
  note D = drawn_rects[OF assms(1,2,3,4) st1]
  have "\<exists>cs b.
          bbox d = BBox cs \<and> (Rect, d, Box b) \<in># primitives st1
          \<and> (\<forall>s. (Rect, d, s) \<in># primitives st1 \<longrightarrow> s = Box b)
          \<and> box_x b = (if isFinite (spec_x h v cs) then spec_x h v cs else Fin 0)
          \<and> box_y b = (if isFinite (spec_y h v cs) then spec_y h v cs else Fin 0)
          \<and> box_width b = (if isFinite (spec_width h v cs) \<and> js_gt (spec_width h v cs) (Fin 0)
                            then spec_width h v cs else Fin 0)
          \<and> box_height b = (if isFinite (spec_height h v cs) \<and> js_gt (spec_height h v cs) (Fin 0)
                             then spec_height h v cs else Fin 0)
          \<and> isFinite (box_x b) \<and> isFinite (box_y b)
          \<and> isFinite (box_width b) \<and> isFinite (box_height b)
          \<and> js_le (Fin 0) (box_width b) \<and> js_le (Fin 0) (box_height b)
          \<and> (ToNumber h (component cs 0) = NaN \<longrightarrow> box_x b = Fin 0 \<and> box_width b = Fin 0)
          \<and> (ToNumber h (component cs 1) = NaN \<longrightarrow> box_y b = Fin 0 \<and> box_height b = Fin 0)
          \<and> (ToNumber h (component cs 2) = NaN \<longrightarrow> box_width b = Fin 0)
          \<and> (ToNumber h (component cs 3) = NaN \<longrightarrow> box_height b = Fin 0)"
    if d: "d \<in> set (frame_records f st)" for d
  proof -
    obtain cs where cs: "bbox d = BBox cs" using assms(5) d by (cases "bbox d") auto
    obtain b where b: "rect_shape h v d = Inr (Box b)"
      and P: "isFinite (box_x b) \<and> isFinite (box_y b) \<and> isFinite (box_width b) \<and> isFinite (box_height b)
     \<and> js_le (Fin 0) (box_width b) \<and> js_le (Fin 0) (box_height b)
     \<and> (\<not> isFinite (spec_x h v cs) \<longrightarrow> box_x b = Fin 0)
     \<and> (\<not> isFinite (spec_y h v cs) \<longrightarrow> box_y b = Fin 0)
     \<and> (\<not> isFinite (spec_width h v cs) \<longrightarrow> box_width b = Fin 0)
     \<and> (\<not> isFinite (spec_height h v cs) \<longrightarrow> box_height b = Fin 0)
     \<and> (ToNumber h (component cs 0) = NaN \<longrightarrow> box_x b = Fin 0 \<and> box_width b = Fin 0)
     \<and> (ToNumber h (component cs 1) = NaN \<longrightarrow> box_y b = Fin 0 \<and> box_height b = Fin 0)
     \<and> (ToNumber h (component cs 2) = NaN \<longrightarrow> box_width b = Fin 0)
     \<and> (ToNumber h (component cs 3) = NaN \<longrightarrow> box_height b = Fin 0)"
      using rect_shape_tolerant[OF cs, of h v] by blast
    have s: "the_shape (rect_shape h v) d = Box b" using b by (simp add: the_shape_def)
    then have m: "(Rect, d, Box b) \<in># primitives st1"
      "\<forall>s. (Rect, d, s) \<in># primitives st1 \<longrightarrow> s = Box b"
      using D(1) d by simp_all
    have e: "box_x b = rect_x h v cs" "box_y b = rect_y h v cs"
      "box_width b = rect_width' h v cs" "box_height b = rect_height' h v cs"
      using s rect_shape_Box[OF cs, of h v] by auto
    have E: "box_x b = (if isFinite (spec_x h v cs) then spec_x h v cs else Fin 0)"
      "box_y b = (if isFinite (spec_y h v cs) then spec_y h v cs else Fin 0)"
      "box_width b = (if isFinite (spec_width h v cs) \<and> js_gt (spec_width h v cs) (Fin 0)
                            then spec_width h v cs else Fin 0)"
      "box_height b = (if isFinite (spec_height h v cs) \<and> js_gt (spec_height h v cs) (Fin 0)
                             then spec_height h v cs else Fin 0)"
      unfolding e by (rule rect_x_spec rect_y_spec rect_width_spec rect_height_spec)+
    show ?thesis using cs m E P by blast
  qed
  then show ?thesis using st1 by blast
qed

theorem malformed_bbox_tolerated_witness:
  "\<exists>st1 b. updateBoundingBoxes example_host example_page (JNum (Fin 3)) malformed_state = Inr st1
     \<and> (Rect, malformed_record, Box b) \<in># primitives st1
     \<and> box_x b = Fin (2932031007402667 / 70368744177664) \<and> box_y b = Fin 0
     \<and> box_width b = Fin (2932031007402667 / 35184372088832) \<and> box_height b = Fin 0"
proof -
  note F = one_record_facts[of malformed_record, folded malformed_state_def]
  have fr: "frame_records (JNum (Fin 3)) malformed_state = [malformed_record]"
    by (rule F(4)) (simp add: malformed_record_def example_record_def)
  have bb: "bbox malformed_record = BBox [JNum (Fin 100), JStr ''abc'', JNum (Fin 300)]"
    by (simp add: malformed_record_def)
  have ok: "\<forall>d \<in> set (frame_records (JNum (Fin 3)) malformed_state). bbox d \<noteq> NoBBox"
    by (simp add: fr bb)
  from malformed_bbox_tolerated[OF F(1,2,3) valid_example_video ok, of example_host]
  obtain st1 b where st1: "updateBoundingBoxes example_host example_page (JNum (Fin 3)) malformed_state = Inr st1"
    and m: "(Rect, malformed_record, Box b) \<in># primitives st1"
    and x: "box_x b = (if isFinite (spec_x example_host example_video [JNum (Fin 100), JStr ''abc'', JNum (Fin 300)])
                       then spec_x example_host example_video [JNum (Fin 100), JStr ''abc'', JNum (Fin 300)] else Fin 0)"
    and w: "box_width b = (if isFinite (spec_width example_host example_video [JNum (Fin 100), JStr ''abc'', JNum (Fin 300)])
                              \<and> js_gt (spec_width example_host example_video [JNum (Fin 100), JStr ''abc'', JNum (Fin 300)]) (Fin 0)
                           then spec_width example_host example_video [JNum (Fin 100), JStr ''abc'', JNum (Fin 300)] else Fin 0)"
    and y: "ToNumber example_host (component [JNum (Fin 100), JStr ''abc'', JNum (Fin 300)] 1) = NaN
              \<longrightarrow> box_y b = Fin 0 \<and> box_height b = Fin 0"
    by (auto simp: fr bb)
  have "ToNumber example_host (component [JNum (Fin 100), JStr ''abc'', JNum (Fin 300)] 1) = NaN"
    by (simp add: component_def example_host_def)
  then have "box_y b = Fin 0" "box_height b = Fin 0" using y by simp_all
  moreover have "box_x b = Fin (2932031007402667 / 70368744177664)"
    using x by (simp add: malformed_spec_x)
  moreover have "box_width b = Fin (2932031007402667 / 35184372088832)"
    using w by (simp add: malformed_spec_width js_gt_def)
  ultimately show ?thesis using st1 m by blast
qed

theorem missing_bbox_counterexample:
  "example_record \<in> set (frame_records (JNum (Fin 3)) missing_bbox_state)
   \<and> missing_bbox_record \<in> set (frame_records (JNum (Fin 3)) missing_bbox_state)
   \<and> bbox missing_bbox_record = NoBBox
   \<and> updateBoundingBoxes example_host example_page (JNum (Fin 3)) missing_bbox_state = Inl TypeError"
proof -
  have fr: "frame_records (JNum (Fin 3)) missing_bbox_state = [example_record, missing_bbox_record]"
    by (simp add: frame_records_def missing_bbox_state_def missing_bbox_record_def example_record_def)
  have d: "boundingBoxData missing_bbox_state \<noteq> []"
    and v: "video_of example_page missing_bbox_state = Some example_video"
    by (simp_all add: missing_bbox_state_def video_of_def example_overlay_def example_page_def)
  have n: "bbox missing_bbox_record = NoBBox" by (simp add: missing_bbox_record_def)
  have m: "missing_bbox_record \<in> set (frame_records (JNum (Fin 3)) missing_bbox_state)"
    by (simp add: fr)
  show ?thesis
    using missing_bbox_throws[OF d v valid_example_video m n, of example_host] n
    by (simp add: fr)
qed

section \<open>Opacity\<close>

text \<open>
  C8. For a record whose confidence is a number between 0 and 1, the drawn opacity is
  \<open>Math.min(1, confidence + 0.3)\<close>; it is a number between 0.3 and 1, it is 0.3 when the
  confidence is 0, and it is 1 when the confidence is at least 0.7. The literals 0.3 and
  0.7 stand for the binary64 numbers they denote in the source.
\<close>

theorem opacity_range:
  assumes "wf_state st" "boundingBoxData st \<noteq> []" "video_of page st = Some v" "valid_geometry v"
    and "updateBoundingBoxes h page f st = Inr st1"
  shows "(\<forall>d \<in> set (frame_records f st). \<exists>b. (Rect, d, Box b) \<in># primitives st1)
     \<and> (\<forall>d b c. (Rect, d, Box b) \<in># primitives st1 \<and> confidence d = JNum (Fin c)
            \<and> 0 \<le> c \<and> c \<le> 1 \<longrightarrow>
          box_opacity b = Math_min (Fin 1) (js_add (Fin c) (round_binary64 (3/10)))
          \<and> js_le (round_binary64 (3/10)) (box_opacity b) \<and> js_le (box_opacity b) (Fin 1)
          \<and> (c = 0 \<longrightarrow> box_opacity b = round_binary64 (3/10))
          \<and> (js_le (round_binary64 (7/10)) (Fin c) \<longrightarrow> box_opacity b = Fin 1))"
proof (intro conjI ballI allI impI)
  note D = drawn_rects[OF assms]
  fix d assume d: "d \<in> set (frame_records f st)"
  then obtain cs where cs: "bbox d = BBox cs" using D(2) by (cases "bbox d") auto
  show "\<exists>b. (Rect, d, Box b) \<in># primitives st1"
    using D(1) d rect_shape_Box[OF cs, of h v] by auto
next
  note D = drawn_rects[OF assms]
  fix d b c
  assume a: "(Rect, d, Box b) \<in># primitives st1 \<and> confidence d = JNum (Fin c) \<and> 0 \<le> c \<and> c \<le> 1"
  then have d: "d \<in> set (frame_records f st)" "Box b = the_shape (rect_shape h v) d"
    using D(1) by simp_all
  then obtain cs where cs: "bbox d = BBox cs" using D(2) by (cases "bbox d") auto
  have o: "box_opacity b = opacity h d" using d(2) rect_shape_Box[OF cs, of h v] by simp
  from a have c: "confidence d = JNum (Fin c)" "0 \<le> c" "c \<le> 1" by simp_all
  note O = opacity_bounds[OF c, of h]
  show "box_opacity b = Math_min (Fin 1) (js_add (Fin c) (round_binary64 (3/10)))"
    "js_le (round_binary64 (3/10)) (box_opacity b)" "js_le (box_opacity b) (Fin 1)"
    unfolding o using O by blast+
  show "box_opacity b = round_binary64 (3/10)" if "c = 0" unfolding o using O that by blast
  show "box_opacity b = Fin 1" if "js_le (round_binary64 (7/10)) (Fin c)"
    unfolding o using O that by blast
qed

theorem opacity_range_witness:
  "\<exists>st1 b. updateBoundingBoxes example_host example_page (JNum (Fin 3)) one_record_state = Inr st1
     \<and> (Rect, example_record, Box b) \<in># primitives st1 \<and> box_opacity b = Fin 1"
proof -
  note F = one_record_facts[of example_record, folded one_record_state_def]
  have fr: "frame_records (JNum (Fin 3)) one_record_state = [example_record]"
    by (rule F(4)) (simp add: example_record_def)
  have "\<forall>d \<in> set (frame_records (JNum (Fin 3)) one_record_state). bbox d \<noteq> NoBBox"
    by (simp add: fr example_record_def)
  from updateBoundingBoxes_returns[OF F(2,3) valid_example_video this]
  obtain st1 where st1: "updateBoundingBoxes example_host example_page (JNum (Fin 3)) one_record_state = Inr st1"
    by blast
  note O = opacity_range[OF F(1,2,3) valid_example_video st1]
  from O obtain b where b: "(Rect, example_record, Box b) \<in># primitives st1"
    by (auto simp: fr)
  have c: "confidence example_record = JNum (Fin 1)" by (simp add: example_record_def)
  have l: "js_le (round_binary64 (7/10)) (Fin 1)" by (simp add: lit_0_7)
  have "(Rect, example_record, Box b) \<in># primitives st1
      \<and> confidence example_record = JNum (Fin 1) \<and> (0::real) \<le> 1 \<and> (1::real) \<le> 1"
    using b c by simp
  from O[THEN conjunct2, rule_format, OF this] l have "box_opacity b = Fin 1" by blast
  then show ?thesis using st1 b by blast
qed

section \<open>The keyed redraw\<close>

lemma two_redraws:
  assumes "wf_state st" "boundingBoxData st \<noteq> []" "video_of page st = Some v" "valid_geometry v"
    and "updateBoundingBoxes h page f st = Inr st1"
    and "video_of page2 st1 = Some v2" "valid_geometry v2"
    and "updateBoundingBoxes h page2 f2 st1 = Inr st2"
  shows "\<exists>(ov::overlay) cs1 fr1 cs2 fr2.
      wf_layer (boxes ov) (next_node st)
      \<and> redraw_layer h v (frame_records f st) (boxes ov, next_node st) = (cs1, fr1)
      \<and> redraw_layer h v2 (frame_records f2 st1) (cs1, fr1) = (cs2, fr2)
      \<and> box_layer st1 = cs1 \<and> next_node st1 = fr1 \<and> box_layer st2 = cs2"
proof -
  let ?ds = "frame_records f st" and ?ds2 = "frame_records f2 st1"
  obtain ov where ov: "svg st = Some ov"
    using assms(3) by (auto simp: video_of_def split: option.splits)
  obtain cs1 fr1 where r1: "redraw_layer h v ?ds (boxes ov, next_node st) = (cs1, fr1)"
    by (cases "redraw_layer h v ?ds (boxes ov, next_node st)") simp
  have st1: "st1 = st\<lparr>currentFrame := f, svg := Some (ov\<lparr>boxes := cs1\<rparr>), next_node := fr1\<rparr>"
    using assms(5) updateBoundingBoxes_redraws[OF ov assms(2,3,4), of h f] r1
    by (simp split: if_splits)
  have wf: "wf_layer (boxes ov) (next_node st)" using assms(1) ov by (simp add: wf_state_def)
  have sv1: "svg st1 = Some (ov\<lparr>boxes := cs1\<rparr>)" "boundingBoxData st1 \<noteq> []"
    using assms(2) by (simp_all add: st1)
  obtain cs2 fr2 where r2: "redraw_layer h v2 ?ds2 (cs1, fr1) = (cs2, fr2)"
    by (cases "redraw_layer h v2 ?ds2 (cs1, fr1)") simp
  have st2: "st2 = st1\<lparr>currentFrame := f2, svg := Some (ov\<lparr>boxes := cs2\<rparr>), next_node := fr2\<rparr>"
    using assms(6,7,8) updateBoundingBoxes_redraws[OF sv1, of page2 v2 h f2] r2
    by (simp add: st1 split: if_splits)
  have "box_layer st1 = cs1" "next_node st1 = fr1" "box_layer st2 = cs2"
    by (simp_all add: box_layer_def st2 st1)
  then show ?thesis using wf r1 r2 by blast
qed

lemma persisting_node:
  assumes "wf_state st" "boundingBoxData st \<noteq> []" "video_of page st = Some v" "valid_geometry v"
    and "updateBoundingBoxes h page f st = Inr st1"
    and "video_of page2 st1 = Some v2" "valid_geometry v2"
    and "updateBoundingBoxes h page2 f2 st1 = Inr st2"
    and "k \<in> key h ` set (frame_records f st)" "k \<in> key h ` set (frame_records f2 st1)"
  shows "\<exists>n1 n2. n1 \<in> set (box_layer st1) \<and> n2 \<in> set (box_layer st2)
           \<and> node_id n2 = node_id n1 \<and> node_id n1 < next_node st1
           \<and> node_tag n1 = t \<and> node_tag n2 = t
           \<and> datum n1 \<in> set (frame_records f st) \<and> key h (datum n1) = k
           \<and> shape n1 = drawn_shape h v t (datum n1)
           \<and> datum n2 \<in> set (frame_records f2 st1) \<and> key h (datum n2) = k
           \<and> shape n2 = drawn_shape h v2 t (datum n2)"
proof -
  let ?ds = "frame_records f st" and ?ds2 = "frame_records f2 st1"
  obtain ov :: overlay and cs1 fr1 cs2 fr2 where wf: "wf_layer (boxes ov) (next_node st)"
    and r1: "redraw_layer h v ?ds (boxes ov, next_node st) = (cs1, fr1)"
    and r2: "redraw_layer h v2 ?ds2 (cs1, fr1) = (cs2, fr2)"
    and l: "box_layer st1 = cs1" "next_node st1 = fr1" "box_layer st2 = cs2"
    using two_redraws[OF assms(1-8)] by blast
  note P1 = redraw_layer_props[OF wf r1]
  have k1: "mset (map (\<lambda>n. key h (datum n)) (tagged t cs1)) = mset (map (key h) ?ds)"
    by (cases t) (use tagged_keys[OF P1(2)] tagged_keys[OF P1(3)] in simp_all)
  have "k \<in> set (map (\<lambda>n. key h (datum n)) (tagged t cs1))"
    using k1 assms(9) by (metis mset_eq_setD set_map)
  then have kin: "k \<in> (\<lambda>n. key h (datum n)) ` set (tagged t cs1)" by simp
  obtain n1 n2 d where *: "n1 \<in> set (tagged t cs1)" "n2 \<in> set (tagged t cs2)" "d \<in> set ?ds2"
    "key h (datum n1) = k" "key h d = k" "node_id n2 = node_id n1" "datum n2 = d"
    "shape n2 = drawn_shape h v2 t d"
    using redraw_layer_persists[OF P1(1) r2 kin assms(10)] by blast
  have s1: "datum n1 \<in> set ?ds" "shape n1 = drawn_shape h v t (datum n1)"
    using redraw_layer_shapes[OF wf r1 *(1)] by simp_all
  have lt: "node_id n1 < fr1"
    using P1(1) *(1) by (auto simp: wf_layer_def list_all_iff tagged_def)
  have m: "n1 \<in> set cs1" "node_tag n1 = t" "n2 \<in> set cs2" "node_tag n2 = t"
    using *(1,2) by (simp_all add: tagged_def)
  show ?thesis
    using * s1 lt m l by (intro exI[of _ n1] exI[of _ n2]) simp
qed

lemma nodes_with_key_member:
  "n \<in> set (box_layer st) \<Longrightarrow> node_tag n = t \<Longrightarrow> key h (datum n) = k
   \<Longrightarrow> node_id n \<in> set (nodes_with_key h t k st)"
  by (auto simp: box_layer_def nodes_with_key_def split: option.splits)

text \<open>
  C2. After a redraw of frame \<open>f\<close> with a live surface, records and valid geometry, the
  box layer holds, for boxes and for labels alike, one primitive for every record of the
  frame and no other, each bound to its record and carrying what the callbacks draw for
  it; the identifiers of the primitives are those of the records of the frame. A
  primitive whose identifier is also in the next frame drawn is updated in place: a node
  of the layer with that identifier before the second redraw is in the layer after it,
  with the identity it had (one handed out before the second redraw), bound to the
  record of the new frame and carrying what the callbacks draw for that record with the
  geometry of the second redraw. When the identifiers within a frame are unique, as the
  data model requires, it is the only node of its kind with that identifier, before and
  after.
\<close>

theorem keyed_redraw:
  assumes "wf_state st" "boundingBoxData st \<noteq> []" "video_of page st = Some v" "valid_geometry v"
    and "updateBoundingBoxes h page f st = Inr st1"
  shows "image_mset (\<lambda>p. (fst p, key h (fst (snd p)))) (primitives st1)
      = image_mset (\<lambda>d. (Rect, key h d)) (mset (frame_records f st))
        + image_mset (\<lambda>d. (Text, key h d)) (mset (frame_records f st))
    \<and> (\<forall>page2 v2 f2 st2 t k.
          video_of page2 st1 = Some v2 \<and> valid_geometry v2
          \<and> updateBoundingBoxes h page2 f2 st1 = Inr st2
          \<and> distinct (map (key h) (frame_records f st))
          \<and> distinct (map (key h) (frame_records f2 st1))
          \<and> k \<in> key h ` set (frame_records f st) \<and> k \<in> key h ` set (frame_records f2 st1)
          \<longrightarrow> (\<exists>i. nodes_with_key h t k st1 = [i] \<and> nodes_with_key h t k st2 = [i]
                   \<and> i < next_node st1))
    \<and> primitives st1 = drawn h v (frame_records f st)
    \<and> distinct (map node_id (box_layer st1))
    \<and> (\<forall>page2 v2 f2 st2 t k.
          video_of page2 st1 = Some v2 \<and> valid_geometry v2
          \<and> updateBoundingBoxes h page2 f2 st1 = Inr st2
          \<and> k \<in> key h ` set (frame_records f st) \<and> k \<in> key h ` set (frame_records f2 st1)
          \<longrightarrow> distinct (map node_id (box_layer st2))
              \<and> (\<exists>n1 n2. n1 \<in> set (box_layer st1) \<and> n2 \<in> set (box_layer st2)
                   \<and> node_id n2 = node_id n1 \<and> node_id n1 < next_node st1
                   \<and> node_tag n1 = t \<and> node_tag n2 = t
                   \<and> datum n1 \<in> set (frame_records f st) \<and> key h (datum n1) = k
                   \<and> shape n1 = drawn_shape h v t (datum n1)
                   \<and> datum n2 \<in> set (frame_records f2 st1) \<and> key h (datum n2) = k
                   \<and> shape n2 = drawn_shape h v2 t (datum n2)))"
proof (intro conjI allI impI)
  note U = updateBoundingBoxes_primitives[OF assms(1,5,2,3,4)]
  show "image_mset (\<lambda>p. (fst p, key h (fst (snd p)))) (primitives st1)
      = image_mset (\<lambda>d. (Rect, key h d)) (mset (frame_records f st))
        + image_mset (\<lambda>d. (Text, key h d)) (mset (frame_records f st))"
    by (simp add: U(1) drawn_def image_mset.compositionality comp_def)
  show "primitives st1 = drawn h v (frame_records f st)" by (rule U(1))
  show "distinct (map node_id (box_layer st1))"
    using U(2) by (auto simp: wf_state_def wf_layer_def box_layer_def split: option.splits)
next
  fix page2 v2 f2 st2 t k
  assume a: "video_of page2 st1 = Some v2 \<and> valid_geometry v2
          \<and> updateBoundingBoxes h page2 f2 st1 = Inr st2
          \<and> k \<in> key h ` set (frame_records f st) \<and> k \<in> key h ` set (frame_records f2 st1)"
  note U = updateBoundingBoxes_primitives[OF assms(1,5,2,3,4)]
  from a have b: "video_of page2 st1 = Some v2" "valid_geometry v2"
    "updateBoundingBoxes h page2 f2 st1 = Inr st2"
    "k \<in> key h ` set (frame_records f st)" "k \<in> key h ` set (frame_records f2 st1)"
    by simp_all
  have "wf_state st2" by (rule wf_state_update[OF U(2) b(3)])
  then show "distinct (map node_id (box_layer st2))"
    by (auto simp: wf_state_def wf_layer_def box_layer_def split: option.splits)
  show "\<exists>n1 n2. n1 \<in> set (box_layer st1) \<and> n2 \<in> set (box_layer st2)
                   \<and> node_id n2 = node_id n1 \<and> node_id n1 < next_node st1
                   \<and> node_tag n1 = t \<and> node_tag n2 = t
                   \<and> datum n1 \<in> set (frame_records f st) \<and> key h (datum n1) = k
                   \<and> shape n1 = drawn_shape h v t (datum n1)
                   \<and> datum n2 \<in> set (frame_records f2 st1) \<and> key h (datum n2) = k
                   \<and> shape n2 = drawn_shape h v2 t (datum n2)"
    by (rule persisting_node[OF assms b])
next
  fix page2 v2 f2 st2 t k
  assume a: "video_of page2 st1 = Some v2 \<and> valid_geometry v2
          \<and> updateBoundingBoxes h page2 f2 st1 = Inr st2
          \<and> distinct (map (key h) (frame_records f st))
          \<and> distinct (map (key h) (frame_records f2 st1))
          \<and> k \<in> key h ` set (frame_records f st) \<and> k \<in> key h ` set (frame_records f2 st1)"
  let ?ds = "frame_records f st" and ?ds2 = "frame_records f2 st1"
  obtain ov where ov: "svg st = Some ov"
    using assms(3) by (auto simp: video_of_def split: option.splits)
  obtain cs1 fr1 where r1: "redraw_layer h v ?ds (boxes ov, next_node st) = (cs1, fr1)"
    by (cases "redraw_layer h v ?ds (boxes ov, next_node st)") simp
  have st1: "st1 = st\<lparr>currentFrame := f, svg := Some (ov\<lparr>boxes := cs1\<rparr>), next_node := fr1\<rparr>"
    using assms(5) updateBoundingBoxes_redraws[OF ov assms(2,3,4), of h f] r1
    by (simp split: if_splits)
  have wf: "wf_layer (boxes ov) (next_node st)" using assms(1) ov by (simp add: wf_state_def)
  note P1 = redraw_layer_props[OF wf r1]
  have sv1: "svg st1 = Some (ov\<lparr>boxes := cs1\<rparr>)" "boundingBoxData st1 \<noteq> []"
    using assms(2) by (simp_all add: st1)
  obtain cs2 fr2 where r2: "redraw_layer h v2 ?ds2 (cs1, fr1) = (cs2, fr2)"
    by (cases "redraw_layer h v2 ?ds2 (cs1, fr1)") simp
  have st2: "st2 = st1\<lparr>currentFrame := f2, svg := Some (ov\<lparr>boxes := cs2\<rparr>), next_node := fr2\<rparr>"
    using a updateBoundingBoxes_redraws[OF sv1, of page2 v2 h f2] r2
    by (simp add: st1 split: if_splits)
  note P2 = redraw_layer_props[OF P1(1) r2]
  have k1: "mset (map (\<lambda>n. key h (datum n)) (tagged t cs1)) = mset (map (key h) ?ds)"
    by (cases t) (use tagged_keys[OF P1(2)] tagged_keys[OF P1(3)] in simp_all)
  have k2: "mset (map (\<lambda>n. key h (datum n)) (tagged t cs2)) = mset (map (key h) ?ds2)"
    by (cases t) (use tagged_keys[OF P2(2)] tagged_keys[OF P2(3)] in simp_all)
  have d1: "distinct (map (\<lambda>n. key h (datum n)) (tagged t cs1))"
    using k1 a mset_eq_imp_distinct_iff by blast
  have d2: "distinct (map (\<lambda>n. key h (datum n)) (tagged t cs2))"
    using k2 a mset_eq_imp_distinct_iff by blast
  have "k \<in> set (map (\<lambda>n. key h (datum n)) (tagged t cs1))"
    using k1 a by (metis mset_eq_setD set_map)
  then obtain n where n: "n \<in> set (tagged t cs1)" "key h (datum n) = k" by auto
  obtain d where d: "d \<in> set ?ds2" "key h d = k" using a by auto
  obtain n' where n': "n' \<in> set (tagged t cs2)" "node_id n' = node_id n" "datum n' = d"
    using redraw_layer_in_place[OF P1(1) r2 d1 _ n(1) d(1)] a d(2) n(2) by auto
  have "nodes_with_key h t k st1 = [node_id n]"
    using nodes_with_key_unique[of st1 "ov\<lparr>boxes := cs1\<rparr>" h t n] d1 n sv1(1) by simp
  moreover have "nodes_with_key h t k st2 = [node_id n]"
    using nodes_with_key_unique[of st2 "ov\<lparr>boxes := cs2\<rparr>" h t n'] d2 n' d(2)
    by (simp add: st2)
  moreover have "node_id n < next_node st1"
    using P1(1) n(1) by (auto simp: wf_layer_def list_all_iff tagged_def st1)
  ultimately show "\<exists>i. nodes_with_key h t k st1 = [i] \<and> nodes_with_key h t k st2 = [i]
      \<and> i < next_node st1"
    by simp
qed

theorem keyed_redraw_witness:
  "\<exists>st1 st2 n1 n2 b1 b2.
     updateBoundingBoxes example_host example_page (JNum (Fin 1)) two_frame_state = Inr st1
     \<and> updateBoundingBoxes example_host example_page (JNum (Fin 2)) st1 = Inr st2
     \<and> nodes_with_key example_host Rect ''2'' st1 = [node_id n1]
     \<and> nodes_with_key example_host Rect ''2'' st2 = [node_id n1]
     \<and> n1 \<in> set (box_layer st1) \<and> n2 \<in> set (box_layer st2) \<and> node_id n2 = node_id n1
     \<and> datum n1 = keyed_record 1 ''2'' ''car'' \<and> shape n1 = Box b1 \<and> box_stroke b1 = Some ''red''
     \<and> datum n2 = keyed_record 2 ''2'' ''bus'' \<and> shape n2 = Box b2 \<and> box_stroke b2 = Some ''blue''
     \<and> image_mset (\<lambda>p. (fst p, key example_host (fst (snd p)))) (primitives st2)
         = {#(Rect, ''2''), (Rect, ''3''), (Text, ''2''), (Text, ''3'')#}"
proof -
  let ?h = example_host and ?p = example_page
  have wf: "wf_state two_frame_state"
    by (simp add: wf_state_def two_frame_state_def example_overlay_def wf_layer_def)
  have d: "boundingBoxData two_frame_state \<noteq> []"
    and v: "video_of ?p two_frame_state = Some example_video"
    and fr1: "frame_records (JNum (Fin 1)) two_frame_state
                = [keyed_record 1 ''1'' ''car'', keyed_record 1 ''2'' ''car'']"
    and fr2: "frame_records (JNum (Fin 2)) two_frame_state
                = [keyed_record 2 ''2'' ''bus'', keyed_record 2 ''3'' ''car'']"
    by (simp_all add: two_frame_state_def video_of_def example_overlay_def example_page_def
        frame_records_def keyed_record_def example_record_def)
  have k: "key ?h (keyed_record f s c) = s" for f s c by (simp add: key_def keyed_record_def)
  have b: "bbox (keyed_record f s c) \<noteq> NoBBox" for f s c
    by (simp add: keyed_record_def example_record_def)
  have "\<forall>d \<in> set (frame_records (JNum (Fin 1)) two_frame_state). bbox d \<noteq> NoBBox"
    by (simp add: fr1 b)
  from updateBoundingBoxes_returns[OF d v valid_example_video this]
  obtain st1 where st1: "updateBoundingBoxes ?h ?p (JNum (Fin 1)) two_frame_state = Inr st1"
    by blast
  note U = updateBoundingBoxes_primitives[OF wf st1 d v valid_example_video]
  have d1: "boundingBoxData st1 \<noteq> []" and v1: "video_of ?p st1 = Some example_video"
    and fr2': "frame_records (JNum (Fin 2)) st1
                 = [keyed_record 2 ''2'' ''bus'', keyed_record 2 ''3'' ''car'']"
    using U(3) U(4)[of ?p] d v fr2 by (simp_all add: frame_records_def)
  have "\<forall>d \<in> set (frame_records (JNum (Fin 2)) st1). bbox d \<noteq> NoBBox"
    by (simp add: fr2' b)
  from updateBoundingBoxes_returns[OF d1 v1 valid_example_video this]
  obtain st2 where st2: "updateBoundingBoxes ?h ?p (JNum (Fin 2)) st1 = Inr st2"
    by blast
  note K1 = keyed_redraw[OF wf d v valid_example_video st1]
  note K2 = keyed_redraw[OF U(2) d1 v1 valid_example_video st2]
  have "\<exists>i. nodes_with_key ?h Rect ''2'' st1 = [i] \<and> nodes_with_key ?h Rect ''2'' st2 = [i]
      \<and> i < next_node st1"
    using K1[THEN conjunct2, THEN conjunct1, rule_format,
        of ?p example_video "JNum (Fin 2)" st2 "''2''" Rect]
      v1 valid_example_video st2
    by (simp add: fr1 fr2' k)
  then obtain i where i: "nodes_with_key ?h Rect ''2'' st1 = [i]"
    "nodes_with_key ?h Rect ''2'' st2 = [i]" by blast
  have "\<exists>n1 n2. n1 \<in> set (box_layer st1) \<and> n2 \<in> set (box_layer st2)
         \<and> node_id n2 = node_id n1 \<and> node_id n1 < next_node st1
         \<and> node_tag n1 = Rect \<and> node_tag n2 = Rect
         \<and> datum n1 \<in> set (frame_records (JNum (Fin 1)) two_frame_state)
         \<and> key ?h (datum n1) = ''2''
         \<and> shape n1 = drawn_shape ?h example_video Rect (datum n1)
         \<and> datum n2 \<in> set (frame_records (JNum (Fin 2)) st1) \<and> key ?h (datum n2) = ''2''
         \<and> shape n2 = drawn_shape ?h example_video Rect (datum n2)"
    using K1[THEN conjunct2, THEN conjunct2, THEN conjunct2, THEN conjunct2, rule_format,
        of ?p example_video "JNum (Fin 2)" st2 "''2''" Rect]
      v1 valid_example_video st2
    by (simp add: fr1 fr2' k)
  then obtain n1 n2 where n: "n1 \<in> set (box_layer st1)" "n2 \<in> set (box_layer st2)"
    "node_id n2 = node_id n1" "node_tag n1 = Rect"
    "datum n1 \<in> set (frame_records (JNum (Fin 1)) two_frame_state)" "key ?h (datum n1) = ''2''"
    "shape n1 = drawn_shape ?h example_video Rect (datum n1)"
    "datum n2 \<in> set (frame_records (JNum (Fin 2)) st1)" "key ?h (datum n2) = ''2''"
    "shape n2 = drawn_shape ?h example_video Rect (datum n2)"
    by blast
  have dn1: "datum n1 = keyed_record 1 ''2'' ''car''" using n(5,6) by (auto simp: fr1 k)
  have dn2: "datum n2 = keyed_record 2 ''2'' ''bus''" using n(8,9) by (auto simp: fr2' k)
  have bb: "bbox (keyed_record f s c)
      = BBox [JNum (Fin 100), JNum (Fin 100), JNum (Fin 300), JNum (Fin 200)]" for f s c
    by (simp add: keyed_record_def example_record_def)
  have cc: "class_color ?h (keyed_record f s ''car'') = Some ''red''"
    "class_color ?h (keyed_record f s ''bus'') = Some ''blue''" for f s
    by (simp_all add: class_color_def keyed_record_def example_host_def)
  obtain b1 where b1: "shape n1 = Box b1" "box_stroke b1 = Some ''red''"
    using n(7) by (simp add: dn1 drawn_shape_def rect_shape_Box[OF bb] cc)
  obtain b2 where b2: "shape n2 = Box b2" "box_stroke b2 = Some ''blue''"
    using n(10) by (simp add: dn2 drawn_shape_def rect_shape_Box[OF bb] cc)
  have "node_id n1 \<in> set (nodes_with_key ?h Rect ''2'' st1)"
    by (rule nodes_with_key_member[OF n(1,4,6)])
  then have e: "i = node_id n1" using i(1) by simp
  have m: "image_mset (\<lambda>p. (fst p, key ?h (fst (snd p)))) (primitives st2)
         = {#(Rect, ''2''), (Rect, ''3''), (Text, ''2''), (Text, ''3'')#}"
    using K2[THEN conjunct1] by (simp add: fr2' k)
  show ?thesis
    using st1 st2 i[unfolded e] n(1,2,3) dn1 dn2 b1 b2 m by blast
qed

section \<open>Redrawing twice\<close>

text \<open>
  C9. Redrawing a frame again, with the records and the geometry unchanged, leaves the
  same primitives: the second call returns as the first did, and the boxes and labels in
  the layer afterwards are, with their records and every value drawn, the ones that were
  there after the first call, in the same number. The other variables of the module keep
  their values.
\<close>

theorem redraw_idempotent:
  assumes "wf_state st" "updateBoundingBoxes h page f st = Inr st1"
  shows "\<exists>st2. updateBoundingBoxes h page f st1 = Inr st2
      \<and> primitives st2 = primitives st1 \<and> size (primitives st2) = size (primitives st1)
      \<and> boundingBoxData st2 = boundingBoxData st1 \<and> currentFrame st2 = currentFrame st1
      \<and> console st2 = console st1"
proof (cases "boundingBoxData st \<noteq> [] \<and> (\<exists>v. video_of page st = Some v \<and> valid_geometry v)")
  case True
  then obtain v where v: "boundingBoxData st \<noteq> []" "video_of page st = Some v" "valid_geometry v"
    by blast
  note U = updateBoundingBoxes_primitives[OF assms v]
  obtain ov where ov: "svg st = Some ov"
    using v(2) by (auto simp: video_of_def split: option.splits)
  have ok: "\<forall>d \<in> set (frame_records f st). bbox d \<noteq> NoBBox"
    using assms(2) updateBoundingBoxes_redraws[OF ov v, of h f] by (simp split: if_splits)
  obtain ov1 where ov1: "svg st1 = Some ov1"
    using U(4)[of page] v(2) by (auto simp: video_of_def split: option.splits)
  have v1: "boundingBoxData st1 \<noteq> []" "video_of page st1 = Some v"
    using U(3) U(4)[of page] v by simp_all
  have fr: "frame_records f st1 = frame_records f st" by (simp add: frame_records_def U(3))
  obtain st2 where st2: "updateBoundingBoxes h page f st1 = Inr st2"
    using updateBoundingBoxes_redraws[OF ov1 v1 v(3), of h f] ok fr by simp
  note U2 = updateBoundingBoxes_primitives[OF U(2) st2 v1 v(3)]
  show ?thesis using st2 U U2 fr by simp
next
  case False
  have 1: "updateBoundingBoxes h page f st = Inr st \<or> updateBoundingBoxes h page f st = Inr (st\<lparr>currentFrame := f\<rparr>)"
    using False assms(2)
    by (auto simp: updateBoundingBoxes_def video_of_def valid_geometry_def Let_def
        split: option.splits if_splits)
  then have s: "st1 = st \<or> st1 = st\<lparr>currentFrame := f\<rparr>" using assms(2) by auto
  have "updateBoundingBoxes h page f st1 = Inr st1"
    using False assms(2) s
    by (auto simp: updateBoundingBoxes_def video_of_def valid_geometry_def Let_def
        split: option.splits if_splits)
  then show ?thesis by simp
qed

theorem redraw_idempotent_witness:
  "\<exists>st1 st2. updateBoundingBoxes example_host example_page (JNum (Fin 3)) one_record_state = Inr st1
     \<and> updateBoundingBoxes example_host example_page (JNum (Fin 3)) st1 = Inr st2
     \<and> primitives st2 = primitives st1 \<and> size (primitives st1) = 2"
proof -
  have wf: "wf_state one_record_state"
    by (simp add: wf_state_def one_record_state_def example_overlay_def wf_layer_def)
  have d: "boundingBoxData one_record_state \<noteq> []"
    and v: "video_of example_page one_record_state = Some example_video"
    and fr: "frame_records (JNum (Fin 3)) one_record_state = [example_record]"
    by (simp_all add: one_record_state_def video_of_def example_overlay_def example_page_def
        frame_records_def example_record_def)
  have "\<forall>d \<in> set (frame_records (JNum (Fin 3)) one_record_state). bbox d \<noteq> NoBBox"
    by (simp add: fr example_record_def)
  from updateBoundingBoxes_returns[OF d v valid_example_video this]
  obtain st1 where st1: "updateBoundingBoxes example_host example_page (JNum (Fin 3)) one_record_state = Inr st1"
    by blast
  have "primitives st1 = drawn example_host example_video [example_record]"
    using updateBoundingBoxes_primitives(1)[OF wf st1 d v valid_example_video] fr by simp
  then have sz: "size (primitives st1) = 2" by (simp add: drawn_def)
  from redraw_idempotent[OF wf st1] st1 sz show ?thesis by blast
qed

end
